theory Spec2Isabelle
  imports Main "HOL-Library.Sublist"
begin

section \<open>Python strings\<close>

text \<open>
  A Python \<open>str\<close> is a sequence of Unicode code points, so a string is a list of
  code points here. ASCII literals are written \<open>ustr ''...''\<close>; the three non-ASCII
  characters of the source are the em dash 8212, the en dash 8211 and the bullet 8226.
\<close>

type_synonym pystr = "nat list"

definition ustr :: "string \<Rightarrow> pystr" where
  "ustr s = map of_char s"

text \<open>
  \<open>str.isspace\<close> of one code point; \<open>str.strip()\<close> and the class \<open>\s\<close> of \<open>re\<close>
  (on \<open>str\<close> patterns) both use it.
\<close>

definition isspace :: "nat \<Rightarrow> bool" where
  "isspace c \<longleftrightarrow>
     (9 \<le> c \<and> c \<le> 13) \<or> (28 \<le> c \<and> c \<le> 32) \<or> c = 133 \<or> c = 160 \<or> c = 5760 \<or>
     (8192 \<le> c \<and> c \<le> 8202) \<or> c = 8232 \<or> c = 8233 \<or> c = 8239 \<or> c = 8287 \<or> c = 12288"

text \<open>The line boundaries of \<open>str.splitlines()\<close>; \<open>\r\n\<close> counts as one.\<close>

definition is_linebreak :: "nat \<Rightarrow> bool" where
  "is_linebreak c \<longleftrightarrow>
     (10 \<le> c \<and> c \<le> 13) \<or> (28 \<le> c \<and> c \<le> 30) \<or> c = 133 \<or> c = 8232 \<or> c = 8233"

text \<open>
  \<open>\d\<close> on a \<open>str\<close> pattern is the Unicode class Nd. The table beyond ASCII belongs
  to the interpreter's Unicode database and is the parameter \<open>nd\<close>; no whitespace
  character and no bullet is a decimal digit.
\<close>

definition isdecimal :: "(nat \<Rightarrow> bool) \<Rightarrow> nat \<Rightarrow> bool" where
  "isdecimal nd c \<longleftrightarrow>
     (48 \<le> c \<and> c \<le> 57) \<or> (128 \<le> c \<and> \<not> isspace c \<and> c \<noteq> 8226 \<and> nd c)"

text \<open>An interpreter without any digit beyond ASCII, for concrete runs.\<close>

definition ascii_digits_only :: "nat \<Rightarrow> bool" where
  "ascii_digits_only c = False"

definition strip :: "pystr \<Rightarrow> pystr" where
  "strip s = rev (dropWhile isspace (rev (dropWhile isspace s)))"

fun splitlines_aux :: "pystr \<Rightarrow> pystr \<Rightarrow> pystr list" where
  "splitlines_aux cur [] = (if cur = [] then [] else [cur])"
| "splitlines_aux cur (c # cs) =
     (if c = 13 \<and> cs \<noteq> [] \<and> hd cs = 10 then cur # splitlines_aux [] (tl cs)
      else if is_linebreak c then cur # splitlines_aux [] cs
      else splitlines_aux (cur @ [c]) cs)"

definition splitlines :: "pystr \<Rightarrow> pystr list" where
  "splitlines s = splitlines_aux [] s"

text \<open>
  \<open>find_sub sep s\<close> cuts \<open>s\<close> at the first occurrence of \<open>sep\<close>: what is before it
  and what is after it. \<open>sep in s\<close>, \<open>s.split(sep, 1)\<close>, \<open>s.find(sep)\<close> and
  \<open>s.startswith(p)\<close> follow. Every separator of the source is a non-empty literal.
\<close>

fun find_sub :: "pystr \<Rightarrow> pystr \<Rightarrow> (pystr \<times> pystr) option" where
  "find_sub sep [] = (if sep = [] then Some ([], []) else None)"
| "find_sub sep (c # cs) =
     (if prefix sep (c # cs) then Some ([], drop (length sep) (c # cs))
      else (case find_sub sep cs of None \<Rightarrow> None | Some (p, q) \<Rightarrow> Some (c # p, q)))"

definition contains :: "pystr \<Rightarrow> pystr \<Rightarrow> bool" where
  "contains sep s \<longleftrightarrow> find_sub sep s \<noteq> None"

definition split1 :: "pystr \<Rightarrow> pystr \<Rightarrow> pystr list" where
  "split1 sep s = (case find_sub sep s of None \<Rightarrow> [s] | Some (p, q) \<Rightarrow> [p, q])"

definition startswith :: "pystr \<Rightarrow> pystr \<Rightarrow> bool" where
  "startswith s p \<longleftrightarrow> prefix p s"

text \<open>
  \<open>str.lower()\<close>, restricted to the code points whose lower-case form holds an ASCII
  character: A to Z, the Kelvin sign, and the dotted capital I, which becomes
  \<open>i\<close> followed by a combining dot. Every other code point is kept: its lower-case
  form is not ASCII, and \<open>lower()\<close> is only ever compared with ASCII literals.
\<close>

definition lower_char :: "nat \<Rightarrow> pystr" where
  "lower_char c =
     (if 65 \<le> c \<and> c \<le> 90 then [c + 32]
      else if c = 8490 then [107]
      else if c = 304 then [105, 775]
      else [c])"

definition lower :: "pystr \<Rightarrow> pystr" where
  "lower s = concat (map lower_char s)"

subsection \<open>Exceptions\<close>

datatype exn = ValueError | IndexError | JSONDecodeError | RecursionError

text \<open>\<open>q, a = xs\<close> raises unless \<open>xs\<close> has two elements; \<open>xs[i]\<close> raises out of range.\<close>

definition unpack2 :: "'a list \<Rightarrow> exn + ('a \<times> 'a)" where
  "unpack2 xs = (case xs of [x, y] \<Rightarrow> Inr (x, y) | _ \<Rightarrow> Inl ValueError)"

definition index :: "'a list \<Rightarrow> nat \<Rightarrow> exn + 'a" where
  "index xs i = (if i < length xs then Inr (xs ! i) else Inl IndexError)"

section \<open>The regular expressions of the parser\<close>

text \<open>
  With \<open>re.IGNORECASE\<close> on a \<open>str\<close> pattern, a lower-case letter of the pattern
  matches the characters whose simple lower case it is, and \<open>s\<close> and \<open>i\<close> also match
  the long s 383 and the dotless i 305.
\<close>

definition ci_eq :: "nat \<Rightarrow> nat \<Rightarrow> bool" where
  "ci_eq p c \<longleftrightarrow>
     c = p \<or> (97 \<le> p \<and> p \<le> 122 \<and> c + 32 = p) \<or>
     (p = 115 \<and> c = 383) \<or> (p = 105 \<and> (c = 304 \<or> c = 305)) \<or> (p = 107 \<and> c = 8490)"

fun ci_prefix :: "pystr \<Rightarrow> pystr \<Rightarrow> bool" where
  "ci_prefix [] s = True"
| "ci_prefix (p # ps) [] = False"
| "ci_prefix (p # ps) (c # cs) = (ci_eq p c \<and> ci_prefix ps cs)"

text \<open>
  \<open>^\s*(h(t)?[:\-]\s*)\<close> matched at the start of \<open>s\<close>, for a letter \<open>h\<close> and a word
  \<open>t\<close>: the rest of \<open>s\<close> after the match. The optional word is tried first and given
  up when no \<open>:\<close> or \<open>-\<close> follows it. The leading \<open>\s*\<close> takes all the whitespace:
  giving some back would put \<open>h\<close> on a whitespace character.
\<close>

definition after_colon :: "pystr \<Rightarrow> pystr option" where
  "after_colon s =
     (case s of [] \<Rightarrow> None
      | d # r \<Rightarrow> if d = 58 \<or> d = 45 then Some (dropWhile isspace r) else None)"

definition label_prefix :: "nat \<Rightarrow> pystr \<Rightarrow> pystr \<Rightarrow> pystr option" where
  "label_prefix h t s =
     (case dropWhile isspace s of [] \<Rightarrow> None
      | c # r \<Rightarrow>
          if \<not> ci_eq h c then None
          else if ci_prefix t r then
            (case after_colon (drop (length t) r) of Some y \<Rightarrow> Some y | None \<Rightarrow> after_colon r)
          else after_colon r)"

text \<open>\<open>_Q_PREFIX = ^\s*(q(uestion)?[:\-]\s*)\<close> and \<open>_A_PREFIX = ^\s*(a(nswer)?[:\-]\s*)\<close>.\<close>

definition Q_PREFIX :: "pystr \<Rightarrow> pystr option" where
  "Q_PREFIX s = label_prefix 113 (ustr ''uestion'') s"

definition A_PREFIX :: "pystr \<Rightarrow> pystr option" where
  "A_PREFIX s = label_prefix 97 (ustr ''nswer'') s"

text \<open>
  \<open>_NUM_PREFIX = ^\s*[\-\u2022\*]?\s*(\d+[\)\.\-:]|\-|\u2022|\*)\s*\<close>. The group is
  \<open>num_group\<close>: a maximal run of digits and one of \<open>) . - :\<close>, else one bullet
  character. The optional bullet before it is tried first, then left out.
\<close>

definition is_bullet :: "nat \<Rightarrow> bool" where
  "is_bullet c \<longleftrightarrow> c = 45 \<or> c = 8226 \<or> c = 42"

definition num_group :: "(nat \<Rightarrow> bool) \<Rightarrow> pystr \<Rightarrow> pystr option" where
  "num_group nd t =
     (let ds = takeWhile (isdecimal nd) t; r = dropWhile (isdecimal nd) t in
      if ds \<noteq> [] \<and> r \<noteq> [] \<and> (hd r = 41 \<or> hd r = 46 \<or> hd r = 45 \<or> hd r = 58) then Some (tl r)
      else (case t of [] \<Rightarrow> None | c # r' \<Rightarrow> if is_bullet c then Some r' else None))"

definition NUM_PREFIX :: "(nat \<Rightarrow> bool) \<Rightarrow> pystr \<Rightarrow> pystr option" where
  "NUM_PREFIX nd s =
     (let s1 = dropWhile isspace s in
      case (case s1 of [] \<Rightarrow> None
            | c # r \<Rightarrow> if is_bullet c then num_group nd (dropWhile isspace r) else None) of
        Some rest \<Rightarrow> Some (dropWhile isspace rest)
      | None \<Rightarrow>
          (case num_group nd s1 of Some rest \<Rightarrow> Some (dropWhile isspace rest) | None \<Rightarrow> None))"

text \<open>
  \<open>pattern.sub("", s)\<close> for a pattern anchored at \<open>^\<close> that matches no empty string:
  the match at the start is removed, if there is one.
\<close>

definition sub_prefix :: "(pystr \<Rightarrow> pystr option) \<Rightarrow> pystr \<Rightarrow> pystr" where
  "sub_prefix pat s = (case pat s of Some rest \<Rightarrow> rest | None \<Rightarrow> s)"

definition matches :: "(pystr \<Rightarrow> pystr option) \<Rightarrow> pystr \<Rightarrow> bool" where
  "matches pat s \<longleftrightarrow> pat s \<noteq> None"

text \<open>\<open>re.sub(r'\s+', ' ', s)\<close>: every maximal run of whitespace becomes one space.\<close>

function collapse_ws :: "pystr \<Rightarrow> pystr" where
  "collapse_ws [] = []"
| "collapse_ws (c # cs) =
     (if isspace c then 32 # collapse_ws (dropWhile isspace cs) else c # collapse_ws cs)"
  by pat_completeness auto
termination
  by (relation "measure length") (auto simp: length_dropWhile_le less_Suc_eq_le)

section \<open>utils/llm.py: the parsing helpers\<close>

record flashcard =
  question :: pystr
  answer :: pystr
  source_chunk :: int

definition card :: "pystr \<Rightarrow> pystr \<Rightarrow> flashcard" where
  "card q a = \<lparr>question = q, answer = a, source_chunk = 0\<rparr>"

definition clean_piece :: "(nat \<Rightarrow> bool) \<Rightarrow> pystr \<Rightarrow> pystr" where
  "clean_piece nd s =
     (let s1 = sub_prefix (NUM_PREFIX nd) (strip s);
          s2 = sub_prefix Q_PREFIX s1;
          s3 = sub_prefix A_PREFIX s2
      in strip (collapse_ws s3))"

text \<open>
  A \<open>for raw in text.splitlines()\<close> loop whose body appends to \<open>out\<close>: the body gives
  the cards it appends, and an exception of the body ends the loop.
\<close>

fun for_lines :: "(pystr \<Rightarrow> exn + flashcard list) \<Rightarrow> flashcard list \<Rightarrow> pystr list \<Rightarrow> exn + flashcard list" where
  "for_lines body out [] = Inr out"
| "for_lines body out (raw # raws) =
     (case body raw of Inl e \<Rightarrow> Inl e | Inr cs \<Rightarrow> for_lines body (out @ cs) raws)"

definition accept :: "pystr \<Rightarrow> pystr \<Rightarrow> flashcard list" where
  "accept q a = (if q \<noteq> [] \<and> a \<noteq> [] then [card q a] else [])"

definition tsv_line :: "(nat \<Rightarrow> bool) \<Rightarrow> pystr \<Rightarrow> exn + flashcard list" where
  "tsv_line nd raw =
     (let line = strip raw in
      if line = [] \<or> \<not> contains [9] line then Inr []
      else (case unpack2 (split1 [9] line) of
              Inl e \<Rightarrow> Inl e
            | Inr (q, a) \<Rightarrow> Inr (accept (clean_piece nd q) (clean_piece nd a))))"

definition parse_tsv_lines :: "(nat \<Rightarrow> bool) \<Rightarrow> pystr \<Rightarrow> exn + flashcard list" where
  "parse_tsv_lines nd text = for_lines (tsv_line nd) [] (splitlines text)"

text \<open>The body of one \<open>try\<close> block of \<open>_parse_q_a_one_line\<close>, for the delimiter \<open>d\<close>.\<close>

definition one_line_try :: "(nat \<Rightarrow> bool) \<Rightarrow> pystr \<Rightarrow> pystr \<Rightarrow> exn + flashcard list" where
  "one_line_try nd d line =
     (case index (split1 [58] line) 1 of
        Inl e \<Rightarrow> Inl e
      | Inr r \<Rightarrow>
          (case index (split1 d r) 0 of
             Inl e \<Rightarrow> Inl e
           | Inr q \<Rightarrow>
               (case index (split1 d line) 1 of
                  Inl e \<Rightarrow> Inl e
                | Inr a \<Rightarrow> Inr (accept (clean_piece nd q) (clean_piece nd a)))))"

text \<open>\<open>except Exception: continue\<close>.\<close>

definition except_continue :: "exn + flashcard list \<Rightarrow> exn + flashcard list" where
  "except_continue r = (case r of Inl e \<Rightarrow> Inr [] | Inr cs \<Rightarrow> Inr cs)"

definition one_line :: "(nat \<Rightarrow> bool) \<Rightarrow> pystr \<Rightarrow> exn + flashcard list" where
  "one_line nd raw =
     (let line = strip raw in
      if line = [] then Inr []
      else if contains (ustr '' A:'') line \<and> startswith (lower line) (ustr ''q:'') then
        except_continue (one_line_try nd (ustr '' A:'') line)
      else if contains (ustr '' Answer:'') line \<and>
              (startswith (lower line) (ustr ''q:'') \<or> startswith (lower line) (ustr ''question:'')) then
        except_continue (one_line_try nd (ustr '' Answer:'') line)
      else Inr [])"

definition parse_q_a_one_line :: "(nat \<Rightarrow> bool) \<Rightarrow> pystr \<Rightarrow> exn + flashcard list" where
  "parse_q_a_one_line nd text = for_lines (one_line nd) [] (splitlines text)"

text \<open>
  The \<open>while i < len(lines) - 1\<close> loop of \<open>_parse_q_a_two_lines\<close>, with its index
  \<open>i\<close> and its list \<open>out\<close>.
\<close>

function two_lines_loop :: "(nat \<Rightarrow> bool) \<Rightarrow> pystr list \<Rightarrow> nat \<Rightarrow> flashcard list \<Rightarrow> exn + flashcard list" where
  "two_lines_loop nd lines i out =
     (if int i < int (length lines) - 1 then
        (case index lines i of
           Inl e \<Rightarrow> Inl e
         | Inr l1 \<Rightarrow>
             (case index lines (i + 1) of
                Inl e \<Rightarrow> Inl e
              | Inr l2 \<Rightarrow>
                  if matches Q_PREFIX l1 \<and> matches A_PREFIX l2 then
                    two_lines_loop nd lines (i + 2)
                      (out @ accept (clean_piece nd (sub_prefix Q_PREFIX l1))
                                    (clean_piece nd (sub_prefix A_PREFIX l2)))
                  else two_lines_loop nd lines (i + 1) out))
      else Inr out)"
  by pat_completeness auto
termination
  by (relation "measure (\<lambda>(nd, lines, i, out). length lines - i)") auto

declare two_lines_loop.simps [simp del]

definition nonempty_lines :: "pystr \<Rightarrow> pystr list" where
  "nonempty_lines text = map strip (filter (\<lambda>ln. strip ln \<noteq> []) (splitlines text))"

definition parse_q_a_two_lines :: "(nat \<Rightarrow> bool) \<Rightarrow> pystr \<Rightarrow> exn + flashcard list" where
  "parse_q_a_two_lines nd text = two_lines_loop nd (nonempty_lines text) 0 []"

text \<open>
  \<open>_parse_numbered_pairs\<close>: the inner \<open>for sep in [...]\<close> with its \<open>break\<close>, on
  the line without its numbering.
\<close>

definition separators :: "pystr list" where
  "separators = [[32, 45, 32], [32, 8212, 32], [32, 58, 32], [32, 8211, 32]]"

definition has_q_label :: "pystr \<Rightarrow> bool" where
  "has_q_label q \<longleftrightarrow> startswith (lower q) (ustr ''q:'') \<or> startswith (lower q) (ustr ''question:'')"

definition has_a_label :: "pystr \<Rightarrow> bool" where
  "has_a_label a \<longleftrightarrow> startswith (lower a) (ustr ''a:'') \<or> startswith (lower a) (ustr ''answer:'')"

definition pair_sides :: "(nat \<Rightarrow> bool) \<Rightarrow> pystr \<Rightarrow> pystr \<Rightarrow> flashcard list" where
  "pair_sides nd q0 a0 =
     (let q = clean_piece nd q0; a = clean_piece nd a0;
          q' = (if has_q_label q then clean_piece nd q else q);
          a' = (if has_a_label a then clean_piece nd a else a)
      in accept q' a')"

fun sep_loop :: "(nat \<Rightarrow> bool) \<Rightarrow> pystr \<Rightarrow> pystr list \<Rightarrow> exn + flashcard list" where
  "sep_loop nd line [] = Inr []"
| "sep_loop nd line (sep # seps) =
     (if contains sep line then
        (case unpack2 (split1 sep line) of
           Inl e \<Rightarrow> Inl e
         | Inr (q, a) \<Rightarrow> Inr (pair_sides nd q a))
      else sep_loop nd line seps)"

definition numbered_line :: "(nat \<Rightarrow> bool) \<Rightarrow> pystr \<Rightarrow> exn + flashcard list" where
  "numbered_line nd raw =
     (let line = strip raw in
      if line = [] then Inr []
      else sep_loop nd (sub_prefix (NUM_PREFIX nd) line) separators)"

definition parse_numbered_pairs :: "(nat \<Rightarrow> bool) \<Rightarrow> pystr \<Rightarrow> exn + flashcard list" where
  "parse_numbered_pairs nd text = for_lines (numbered_line nd) [] (splitlines text)"

text \<open>Python slices \<open>xs[i:j]\<close>, \<open>xs[i:]\<close> and \<open>xs[:j]\<close>: a negative index counts from the end.\<close>

definition norm_index :: "nat \<Rightarrow> int \<Rightarrow> nat" where
  "norm_index n i = (if i < 0 then nat (max 0 (int n + i)) else min (nat i) n)"

definition pyslice :: "'a list \<Rightarrow> int \<Rightarrow> int \<Rightarrow> 'a list" where
  "pyslice xs i j = take (norm_index (length xs) j - norm_index (length xs) i) (drop (norm_index (length xs) i) xs)"

definition slice_from :: "'a list \<Rightarrow> int \<Rightarrow> 'a list" where
  "slice_from xs i = drop (norm_index (length xs) i) xs"

definition slice_to :: "'a list \<Rightarrow> int \<Rightarrow> 'a list" where
  "slice_to xs j = take (norm_index (length xs) j) xs"

text \<open>\<open>s.find(sep)\<close> and \<open>s.rfind(sep)\<close>: the index of the first and of the last occurrence, or -1.\<close>

definition pyfind :: "pystr \<Rightarrow> pystr \<Rightarrow> int" where
  "pyfind s sep = (case find_sub sep s of None \<Rightarrow> - 1 | Some (p, q) \<Rightarrow> int (length p))"

definition pyrfind :: "pystr \<Rightarrow> pystr \<Rightarrow> int" where
  "pyrfind s sep =
     (case find_sub (rev sep) (rev s) of
        None \<Rightarrow> - 1
      | Some (p, q) \<Rightarrow> int (length s) - int (length p) - int (length sep))"

text \<open>
  What \<open>json.loads\<close> returns. The decoder belongs to the standard library and is the
  parameter \<open>loads\<close>: it gives a value or raises. \<open>JSONDecodeError\<close> is the failure it
  documents for a text that is no JSON document; it also raises \<open>ValueError\<close> on an
  integer of more digits than the interpreter converts, and \<open>RecursionError\<close> on deep
  nesting. \<open>str()\<close> of a decoded value is the parameter \<open>py_str\<close>; numbers are kept
  abstract.
\<close>

datatype 'n json =
    JNull
  | JBool bool
  | JNum 'n
  | JStr pystr
  | JList "'n json list"
  | JDict "(pystr \<times> 'n json) list"

definition dict_get :: "(pystr \<times> 'v) list \<Rightarrow> pystr \<Rightarrow> 'v \<Rightarrow> 'v" where
  "dict_get d k dflt = (case map_of d k of Some v \<Rightarrow> v | None \<Rightarrow> dflt)"

definition json_item :: "(nat \<Rightarrow> bool) \<Rightarrow> ('n json \<Rightarrow> pystr) \<Rightarrow> 'n json \<Rightarrow> flashcard list" where
  "json_item nd py_str item =
     (case item of
        JDict d \<Rightarrow>
          accept (clean_piece nd (py_str (dict_get d (ustr ''question'') (JStr []))))
                 (clean_piece nd (py_str (dict_get d (ustr ''answer'') (JStr []))))
      | _ \<Rightarrow> [])"

definition json_cards :: "(nat \<Rightarrow> bool) \<Rightarrow> ('n json \<Rightarrow> pystr) \<Rightarrow> 'n json \<Rightarrow> flashcard list" where
  "json_cards nd py_str data =
     (case data of JList items \<Rightarrow> concat (map (json_item nd py_str) items) | _ \<Rightarrow> [])"

text \<open>
  \<open>_parse_json_list\<close>. Around the first \<open>json.loads\<close> stands
  \<open>except json.JSONDecodeError\<close>: any other exception leaves the function. Around the
  second stands \<open>except Exception\<close>.
\<close>

definition parse_json_list ::
  "(nat \<Rightarrow> bool) \<Rightarrow> (pystr \<Rightarrow> exn + 'n json) \<Rightarrow> ('n json \<Rightarrow> pystr) \<Rightarrow> pystr \<Rightarrow> exn + flashcard list" where
  "parse_json_list nd loads py_str text =
     (case loads text of
        Inr data \<Rightarrow> Inr (json_cards nd py_str data)
      | Inl e \<Rightarrow>
          if e = JSONDecodeError then
            (let start = pyfind text [91]; end = pyrfind text [93] in
             if start \<noteq> - 1 \<and> end \<noteq> - 1 \<and> end > start then
               (case loads (pyslice text start (end + 1)) of
                  Inr data \<Rightarrow> Inr (json_cards nd py_str data)
                | Inl e' \<Rightarrow> Inr [])
             else Inr [])
          else Inl e)"

text \<open>\<open>for p in parsers: cards = p(text); if cards: return cards\<close>, then \<open>return []\<close>.\<close>

fun first_cards :: "(pystr \<Rightarrow> exn + flashcard list) list \<Rightarrow> pystr \<Rightarrow> exn + flashcard list" where
  "first_cards [] text = Inr []"
| "first_cards (p # ps) text =
     (case p text of
        Inl e \<Rightarrow> Inl e
      | Inr cards \<Rightarrow> if cards \<noteq> [] then Inr cards else first_cards ps text)"

definition robust_parse_any ::
  "(nat \<Rightarrow> bool) \<Rightarrow> (pystr \<Rightarrow> exn + 'n json) \<Rightarrow> ('n json \<Rightarrow> pystr) \<Rightarrow> pystr \<Rightarrow> exn + flashcard list" where
  "robust_parse_any nd loads py_str text =
     first_cards
       [parse_tsv_lines nd,
        parse_q_a_one_line nd,
        parse_q_a_two_lines nd,
        parse_numbered_pairs nd,
        parse_json_list nd loads py_str] text"

section \<open>utils/llm.py: corpus compression and the public API\<close>

text \<open>\<open>sep.join(xs)\<close>.\<close>

fun join :: "pystr \<Rightarrow> pystr list \<Rightarrow> pystr" where
  "join sep [] = []"
| "join sep [x] = x"
| "join sep (x # y # ys) = x @ sep @ join sep (y # ys)"

text \<open>
  \<open>round(a / b)\<close> for integers and \<open>b > 0\<close>: the nearest integer, the even one at a
  tie. The quotient is taken exactly; the source takes it in double precision, which
  gives the same integer for the sizes of a text.
\<close>

definition round_div :: "int \<Rightarrow> int \<Rightarrow> int" where
  "round_div a b =
     (let q = a div b; r = a mod b in
      if 2 * r < b then q
      else if 2 * r > b then q + 1
      else if even q then q else q + 1)"

datatype arith_error = ZeroDivisionError

definition segment :: "pystr \<Rightarrow> int \<Rightarrow> int \<Rightarrow> int \<Rightarrow> pystr" where
  "segment text slice_len slices i =
     (let start = round_div (i * (int (length text) - slice_len)) (max 1 (slices - 1))
      in pyslice text start (start + slice_len))"

definition compress_corpus :: "pystr \<Rightarrow> int \<Rightarrow> int \<Rightarrow> arith_error + pystr" where
  "compress_corpus text max_chars slices =
     (if int (length text) \<le> max_chars then Inr text
      else if slices = 0 then Inl ZeroDivisionError
      else
        (let slice_len = max_chars div slices;
             segs = map (\<lambda>i. segment text slice_len slices (int i)) [0..<nat slices]
         in Inr (join ([10] @ ustr ''...'' @ [10]) segs)))"

text \<open>\<open>str(n)\<close> for an integer.\<close>

function str_nat :: "nat \<Rightarrow> pystr" where
  "str_nat n = (if n < 10 then [48 + n] else str_nat (n div 10) @ [48 + n mod 10])"
  by pat_completeness auto
termination
  by (relation "measure id") auto

declare str_nat.simps [simp del]

definition str_int :: "int \<Rightarrow> pystr" where
  "str_int i = (if i < 0 then 45 # str_nat (nat (- i)) else str_nat (nat i))"

definition SYSTEM_TURBO :: pystr where
  "SYSTEM_TURBO =
     ustr ''you create high-quality study flashcards from user notes. '' @
     ustr ''ask clear, testable questions and give short, precise answers only from the notes. '' @
     ustr ''prefer why/how/compare when useful. if not in notes, write '' @ [39] @
     ustr ''not found in notes'' @ [39] @ ustr ''. '' @
     ustr ''return exactly N flashcards.''"

text \<open>\<open>USER_TURBO.format(corpus=corpus, n_total=n_total)\<close>.\<close>

definition USER_TURBO :: "pystr \<Rightarrow> int \<Rightarrow> pystr" where
  "USER_TURBO corpus n_total =
     ustr ''notes (compressed excerpts):'' @ [10] @ ustr ''---'' @ [10] @ corpus @ [10] @
     ustr ''---'' @ [10, 10] @
     ustr ''create exactly '' @ str_int n_total @
     ustr '' flashcards about the core ideas. keep answers 1'' @ [8211] @ ustr ''2 sentences.'' @ [10] @
     ustr ''preferred output: one line per card, tab-separated -> question'' @ [9] @ ustr ''answer'' @ [10] @
     ustr ''acceptable fallback formats if needed: '' @ [39] @ ustr ''Q: ... A: ...'' @ [39] @
     ustr '' on one line OR two lines.'' @ [10] @
     ustr ''do not add numbering, bullets, headers, or extra commentary.''"

definition TSV_ONLY :: pystr where
  "TSV_ONLY = [10] @ ustr ''Respond TSV only: question'' @ [92] @ ustr ''tanswer per line; no extra text.''"

text \<open>
  One call of \<open>client.chat.completions.create\<close>: the messages, the temperature and
  the token limit go in, the content of the first choice comes out (\<open>None\<close> when the
  model gives none). The model is the parameter \<open>call\<close>, and the requests made are
  returned with the cards, in the order they were made.
\<close>

record 't request =
  system :: pystr
  user :: pystr
  temperature :: 't
  max_tokens :: int

definition content_or_empty :: "pystr option \<Rightarrow> pystr" where
  "content_or_empty c = (case c of Some s \<Rightarrow> s | None \<Rightarrow> [])"

definition turbo_request :: "pystr \<Rightarrow> int \<Rightarrow> 't \<Rightarrow> 't request" where
  "turbo_request usr n_total temp =
     \<lparr>system = SYSTEM_TURBO, user = usr, temperature = temp,
      max_tokens = min 1200 (45 * max 1 n_total)\<rparr>"

definition turbo_user :: "pystr \<Rightarrow> int \<Rightarrow> pystr list option \<Rightarrow> arith_error + pystr" where
  "turbo_user full_text n_total topics =
     (case compress_corpus full_text 12000 8 of
        Inl e \<Rightarrow> Inl e
      | Inr corpus \<Rightarrow>
          Inr (USER_TURBO
                 (case topics of
                    None \<Rightarrow> corpus
                  | Some ts \<Rightarrow> if ts \<noteq> [] then corpus @ [10] @ ustr ''Focus on: '' @ join (ustr '', '') ts
                               else corpus)
                 n_total))"

datatype failure = Arith arith_error | Parse exn

definition generate_flashcards_turbo ::
  "(nat \<Rightarrow> bool) \<Rightarrow> (pystr \<Rightarrow> exn + 'n json) \<Rightarrow> ('n json \<Rightarrow> pystr) \<Rightarrow> ('t request \<Rightarrow> pystr option) \<Rightarrow>
   pystr \<Rightarrow> int \<Rightarrow> 't \<Rightarrow> pystr list option \<Rightarrow> failure + ('t request list \<times> flashcard list)" where
  "generate_flashcards_turbo nd loads py_str call full_text n_total temp topics =
     (case turbo_user full_text n_total topics of
        Inl e \<Rightarrow> Inl (Arith e)
      | Inr usr \<Rightarrow>
          (let req = turbo_request usr n_total temp;
               text = content_or_empty (call req)
           in case robust_parse_any nd loads py_str text of
                Inl e \<Rightarrow> Inl (Parse e)
              | Inr cards \<Rightarrow>
                  if int (length cards) \<ge> max 1 (n_total div 2) then
                    Inr ([req], slice_to cards n_total)
                  else
                    (let req2 = turbo_request (usr @ TSV_ONLY) n_total temp;
                         text2 = content_or_empty (call req2)
                     in case robust_parse_any nd loads py_str text2 of
                          Inl e \<Rightarrow> Inl (Parse e)
                        | Inr cards2 \<Rightarrow> Inr ([req, req2], slice_to cards2 n_total))))"

section \<open>utils/chunking.py\<close>

text \<open>
  The first pattern of \<open>_split_candidates\<close> is
  \<open>(?m)^(?:#{1,6} .*|[A-Z0-9][A-Z0-9 \-]{6,})\n\<close>: at the start of a line, either one
  to six \<open>#\<close>, a space and the rest of the line, or a line of at least seven characters
  among capitals, digits, spaces and hyphens that begins with a capital or a digit; in
  both cases the line must end with \<open>\n\<close>, which belongs to the match.
\<close>

definition is_upper_digit :: "nat \<Rightarrow> bool" where
  "is_upper_digit c \<longleftrightarrow> (65 \<le> c \<and> c \<le> 90) \<or> (48 \<le> c \<and> c \<le> 57)"

definition md_heading :: "pystr \<Rightarrow> bool" where
  "md_heading line =
     (let k = length (takeWhile (\<lambda>c. c = 35) line)
      in 1 \<le> k \<and> k \<le> 6 \<and> k < length line \<and> line ! k = 32)"

definition caps_heading :: "pystr \<Rightarrow> bool" where
  "caps_heading line =
     (case line of [] \<Rightarrow> False
      | c # r \<Rightarrow> is_upper_digit c \<and> 6 \<le> length r \<and>
                list_all (\<lambda>d. is_upper_digit d \<or> d = 32 \<or> d = 45) r)"

definition is_heading :: "pystr \<Rightarrow> bool" where
  "is_heading line \<longleftrightarrow> md_heading line \<or> caps_heading line"

text \<open>
  \<open>re.split\<close> on the heading pattern, from a line start: \<open>piece\<close> is the text since the
  last match. A line that is not followed by \<open>\n\<close> is the end of the text.
\<close>

function heading_split :: "pystr \<Rightarrow> pystr \<Rightarrow> pystr list" where
  "heading_split piece t =
     (if dropWhile (\<lambda>c. c \<noteq> 10) t = [] then [piece @ t]
      else if is_heading (takeWhile (\<lambda>c. c \<noteq> 10) t) then
        piece # heading_split [] (tl (dropWhile (\<lambda>c. c \<noteq> 10) t))
      else heading_split (piece @ takeWhile (\<lambda>c. c \<noteq> 10) t @ [10]) (tl (dropWhile (\<lambda>c. c \<noteq> 10) t)))"
  by pat_completeness auto
termination
proof (relation "measure (\<lambda>(piece, t). length t)")
  show "wf (measure (\<lambda>(piece, t). length t))" by simp
next
  fix piece t :: pystr
  assume "dropWhile (\<lambda>c. c \<noteq> 10) t \<noteq> []"
  then have "length (tl (dropWhile (\<lambda>c. c \<noteq> 10) t)) < length (dropWhile (\<lambda>c. c \<noteq> 10) t)"
    by (cases "dropWhile (\<lambda>c. c \<noteq> 10) t") simp_all
  also have "\<dots> \<le> length t" by (rule length_dropWhile_le)
  finally show "(([], tl (dropWhile (\<lambda>c. c \<noteq> 10) t)), (piece, t)) \<in> measure (\<lambda>(piece, t). length t)"
    by simp
  then show "((piece @ takeWhile (\<lambda>c. c \<noteq> 10) t @ [10], tl (dropWhile (\<lambda>c. c \<noteq> 10) t)), (piece, t))
      \<in> measure (\<lambda>(piece, t). length t)"
    by simp
qed

declare heading_split.simps [simp del]

text \<open>\<open>re.split(r"\n\n+", text)\<close>.\<close>

function para_split :: "pystr \<Rightarrow> pystr \<Rightarrow> pystr list" where
  "para_split piece [] = [piece]"
| "para_split piece (c # cs) =
     (if c = 10 \<and> cs \<noteq> [] \<and> hd cs = 10 then piece # para_split [] (dropWhile (\<lambda>d. d = 10) cs)
      else para_split (piece @ [c]) cs)"
  by pat_completeness auto
termination
  by (relation "measure (\<lambda>(piece, t). length t)") (auto simp: length_dropWhile_le less_Suc_eq_le)

text \<open>
  \<open>re.split(r"(?<=[.!?])\s+", text)\<close>: a run of whitespace is a separator when the
  character before it is \<open>.\<close>, \<open>!\<close> or \<open>?\<close>. That character is the last one of the
  piece: after a match the piece is empty and the character before is whitespace.
\<close>

function sent_split :: "pystr \<Rightarrow> pystr \<Rightarrow> pystr list" where
  "sent_split piece [] = [piece]"
| "sent_split piece (c # cs) =
     (if isspace c \<and> piece \<noteq> [] \<and> (last piece = 46 \<or> last piece = 33 \<or> last piece = 63) then
        piece # sent_split [] (dropWhile isspace cs)
      else sent_split (piece @ [c]) cs)"
  by pat_completeness auto
termination
  by (relation "measure (\<lambda>(piece, t). length t)") (auto simp: length_dropWhile_le less_Suc_eq_le)

text \<open>\<open>[p.strip() for p in parts if p.strip()]\<close>.\<close>

definition stripped_nonempty :: "pystr list \<Rightarrow> pystr list" where
  "stripped_nonempty parts = map strip (filter (\<lambda>p. strip p \<noteq> []) parts)"

definition split_candidates :: "pystr \<Rightarrow> pystr list" where
  "split_candidates text =
     (let parts = heading_split [] text in
      if length parts > 1 then stripped_nonempty parts
      else
        (let paras = stripped_nonempty (para_split [] text) in
         if length paras > 1 then paras
         else stripped_nonempty (sent_split [] text)))"

text \<open>
  The tokenizer belongs to \<open>tiktoken\<close>: \<open>enc.encode\<close> and \<open>enc.decode\<close> are the
  parameters \<open>enc\<close> and \<open>dec\<close>, over any type of tokens. The state of \<open>chunk_text\<close> is
  its three variables. \<open>cur_tok > target_tokens * 1.3\<close> is taken exactly, as
  \<open>10 * cur_tok > 13 * target_tokens\<close>.
\<close>

record chunker =
  st_chunks :: "pystr list"
  st_cur :: "pystr list"
  st_cur_tok :: int

definition para_sep :: pystr where
  "para_sep = [10, 10]"

text \<open>The \<open>while\<close> loop that splits by tokens; \<open>None\<close> when it never ends.\<close>

partial_function (option) hard_split ::
  "(pystr \<Rightarrow> 'tok list) \<Rightarrow> ('tok list \<Rightarrow> pystr) \<Rightarrow> int \<Rightarrow> int \<Rightarrow> chunker \<Rightarrow> chunker option" where
  "hard_split enc dec target_tokens overlap_tokens st =
     (if 10 * st_cur_tok st > 13 * target_tokens then
        hard_split enc dec target_tokens overlap_tokens
          \<lparr>st_chunks = st_chunks st @ [dec (slice_to (enc (join para_sep (st_cur st))) target_tokens)],
           st_cur = [dec (slice_from (enc (join para_sep (st_cur st))) (target_tokens - overlap_tokens))],
           st_cur_tok =
             int (length (enc (dec (slice_from (enc (join para_sep (st_cur st))) (target_tokens - overlap_tokens)))))\<rparr>
      else Some st)"

text \<open>The flush of the accumulator, and the new accumulator with its overlap.\<close>

definition flush :: "chunker \<Rightarrow> pystr list" where
  "flush st = (if st_cur st \<noteq> [] then st_chunks st @ [join para_sep (st_cur st)] else st_chunks st)"

definition restart :: "(pystr \<Rightarrow> 'tok list) \<Rightarrow> ('tok list \<Rightarrow> pystr) \<Rightarrow> int \<Rightarrow> pystr list \<Rightarrow> pystr \<Rightarrow> chunker" where
  "restart enc dec overlap_tokens chunks unit =
     (if chunks \<noteq> [] then
        (let last_tokens = enc (last chunks);
             overlap_slice = dec (slice_from last_tokens (max 0 (int (length last_tokens) - overlap_tokens)))
         in \<lparr>st_chunks = chunks, st_cur = [overlap_slice, unit],
             st_cur_tok = int (length (enc overlap_slice)) + int (length (enc unit))\<rparr>)
      else \<lparr>st_chunks = chunks, st_cur = [unit], st_cur_tok = int (length (enc unit))\<rparr>)"

text \<open>The body of \<open>for unit in units\<close>.\<close>

definition chunk_step ::
  "(pystr \<Rightarrow> 'tok list) \<Rightarrow> ('tok list \<Rightarrow> pystr) \<Rightarrow> int \<Rightarrow> int \<Rightarrow> chunker \<Rightarrow> pystr \<Rightarrow> chunker option" where
  "chunk_step enc dec target_tokens overlap_tokens st unit =
     (if st_cur_tok st + int (length (enc unit)) \<le> target_tokens then
        Some (st\<lparr>st_cur := st_cur st @ [unit], st_cur_tok := st_cur_tok st + int (length (enc unit))\<rparr>)
      else hard_split enc dec target_tokens overlap_tokens (restart enc dec overlap_tokens (flush st) unit))"

fun chunk_loop ::
  "(pystr \<Rightarrow> 'tok list) \<Rightarrow> ('tok list \<Rightarrow> pystr) \<Rightarrow> int \<Rightarrow> int \<Rightarrow> chunker \<Rightarrow> pystr list \<Rightarrow> chunker option" where
  "chunk_loop enc dec target_tokens overlap_tokens st [] = Some st"
| "chunk_loop enc dec target_tokens overlap_tokens st (unit # units) =
     (case chunk_step enc dec target_tokens overlap_tokens st unit of
        None \<Rightarrow> None
      | Some st' \<Rightarrow> chunk_loop enc dec target_tokens overlap_tokens st' units)"

definition chunk_text ::
  "(pystr \<Rightarrow> 'tok list) \<Rightarrow> ('tok list \<Rightarrow> pystr) \<Rightarrow> pystr \<Rightarrow> int \<Rightarrow> int \<Rightarrow> pystr list option" where
  "chunk_text enc dec text target_tokens overlap_tokens =
     map_option flush
       (chunk_loop enc dec target_tokens overlap_tokens
          \<lparr>st_chunks = [], st_cur = [], st_cur_tok = 0\<rparr> (split_candidates text))"

text \<open>
  The count that the packer tracks for an accumulator: the sum of the token counts of
  its pieces, each encoded on its own.
\<close>

definition tracked_tokens :: "(pystr \<Rightarrow> 'tok list) \<Rightarrow> pystr list \<Rightarrow> int" where
  "tracked_tokens enc pieces = sum_list (map (\<lambda>p. int (length (enc p))) pieces)"

text \<open>A tokenizer for concrete runs: one token per character.\<close>

definition char_encode :: "pystr \<Rightarrow> nat list" where
  "char_encode s = s"

definition char_decode :: "nat list \<Rightarrow> pystr" where
  "char_decode ts = ts"

text \<open>Stand-ins for concrete runs: a decoder that rejects every text, and \<open>str\<close> on strings.\<close>

definition no_json :: "pystr \<Rightarrow> exn + unit json" where
  "no_json s = Inl JSONDecodeError"

definition plain_str :: "unit json \<Rightarrow> pystr" where
  "plain_str v = (case v of JStr s \<Rightarrow> s | _ \<Rightarrow> [])"

text \<open>A tab-separated text: one line \<open>question TAB answer\<close> per pair, joined by newlines.\<close>

definition tsv_text :: "(pystr \<times> pystr) list \<Rightarrow> pystr" where
  "tsv_text qas = join [10] (map (\<lambda>(q, a). q @ [9] @ a) qas)"

definition cards_of :: "(pystr \<times> pystr) list \<Rightarrow> flashcard list" where
  "cards_of qas = map (\<lambda>(q, a). card q a) qas"

text \<open>Whitespace-normalised: collapsing the whitespace and trimming change nothing.\<close>

definition ws_normalized :: "pystr \<Rightarrow> bool" where
  "ws_normalized s \<longleftrightarrow> strip (collapse_ws s) = s"

definition plain_pairs :: "(pystr \<times> pystr) list \<Rightarrow> bool" where
  "plain_pairs qas \<longleftrightarrow> list_all (\<lambda>(q, a). q \<noteq> [] \<and> a \<noteq> [] \<and> ws_normalized q \<and> ws_normalized a) qas"

text \<open>Pairs whose sides are non-empty and left as they are by the cleaning step.\<close>

definition fixed_pairs :: "(nat \<Rightarrow> bool) \<Rightarrow> (pystr \<times> pystr) list \<Rightarrow> bool" where
  "fixed_pairs nd qas \<longleftrightarrow>
     list_all (\<lambda>(q, a). q \<noteq> [] \<and> a \<noteq> [] \<and> clean_piece nd q = q \<and> clean_piece nd a = a) qas"

text \<open>Five-card generations: the one of the specification, and one with a decimal answer.\<close>

definition spec_cards :: "(pystr \<times> pystr) list" where
  "spec_cards =
     [(ustr ''What is X?'', ustr ''X is Y.''),
      (ustr ''What is A?'', ustr ''A is B.''),
      (ustr ''What is C?'', ustr ''C is D.''),
      (ustr ''What is E?'', ustr ''E is F.''),
      (ustr ''What is G?'', ustr ''G is H.'')]"

definition pi_cards :: "(pystr \<times> pystr) list" where
  "pi_cards =
     [(ustr ''What is X?'', ustr ''X is Y.''),
      (ustr ''What is A?'', ustr ''A is B.''),
      (ustr ''What is pi?'', ustr ''3.14''),
      (ustr ''What is E?'', ustr ''E is F.''),
      (ustr ''What is G?'', ustr ''G is H.'')]"

definition pi_parsed :: "(pystr \<times> pystr) list" where
  "pi_parsed =
     [(ustr ''What is X?'', ustr ''X is Y.''),
      (ustr ''What is A?'', ustr ''A is B.''),
      (ustr ''What is pi?'', ustr ''14''),
      (ustr ''What is E?'', ustr ''E is F.''),
      (ustr ''What is G?'', ustr ''G is H.'')]"

text \<open>
  The text of 4301 digits \<open>1\<close>. It is more digits than CPython 3.11 and later convert
  to an integer (the limit is 4300), so \<open>json.loads\<close> raises \<open>ValueError\<close> on it.
  \<open>limit_loads\<close> stands for \<open>json.loads\<close> on this text and rejects every other one;
  \<open>long_int_oracle\<close> is a model that always answers with it.
\<close>

definition long_int_text :: pystr where
  "long_int_text = replicate 4301 49"

definition limit_loads :: "pystr \<Rightarrow> exn + unit json" where
  "limit_loads s = (if s = long_int_text then Inl ValueError else Inl JSONDecodeError)"

definition long_int_oracle :: "unit request \<Rightarrow> pystr option" where
  "long_int_oracle req = Some long_int_text"

text \<open>
  The cut as claim C8 words it: at the first place of the line where one of the
  separators occurs, whichever separator it is.
\<close>

fun earliest_cut :: "pystr list \<Rightarrow> pystr \<Rightarrow> (pystr \<times> pystr) option" where
  "earliest_cut seps [] = None"
| "earliest_cut seps (c # cs) =
     (case List.find (\<lambda>sep. prefix sep (c # cs)) seps of
        Some sep \<Rightarrow> Some ([], drop (length sep) (c # cs))
      | None \<Rightarrow> (case earliest_cut seps cs of None \<Rightarrow> None | Some (p, q) \<Rightarrow> Some (c # p, q)))"

text \<open>
  Whitespace-collapsed: no whitespace at either end, no whitespace character but the
  space, and no two whitespace characters in a row.
\<close>

fun no_ws_run :: "pystr \<Rightarrow> bool" where
  "no_ws_run (c # d # r) = (\<not> (isspace c \<and> isspace d) \<and> no_ws_run (d # r))"
| "no_ws_run [c] = True"
| "no_ws_run [] = True"

definition single_spaced :: "pystr \<Rightarrow> bool" where
  "single_spaced s \<longleftrightarrow>
     (s = [] \<or> (\<not> isspace (hd s) \<and> \<not> isspace (last s))) \<and>
     list_all (\<lambda>c. isspace c \<longrightarrow> c = 32) s \<and> no_ws_run s"





section \<open>Properties of the parser\<close>

subsection \<open>Cutting a string at a separator\<close>

lemma find_sub_Some: "find_sub sep s = Some (p, q) \<Longrightarrow> s = p @ sep @ q"
proof (induction s arbitrary: p q)
  case Nil
  then show ?case by (simp split: if_splits)
next
  case (Cons c cs)
  show ?case
  proof (cases "prefix sep (c # cs)")
    case True
    with Cons.prems show ?thesis by (auto simp: prefix_def)
  next
    case False
    with Cons.prems obtain p' where "find_sub sep cs = Some (p', q)" "p = c # p'"
      by (auto split: option.splits)
    with Cons.IH show ?thesis by simp
  qed
qed

lemma find_sub_first:
  "find_sub sep s = Some (p, q) \<Longrightarrow> s = p' @ sep @ q' \<Longrightarrow> length p \<le> length p'"
proof (induction s arbitrary: p q p')
  case Nil
  then show ?case by (simp split: if_splits)
next
  case (Cons c cs)
  show ?case
  proof (cases "prefix sep (c # cs)")
    case True
    with Cons.prems(1) show ?thesis by simp
  next
    case False
    with Cons.prems(1) obtain p0 where p0: "find_sub sep cs = Some (p0, q)" "p = c # p0"
      by (auto split: option.splits)
    from False Cons.prems(2) obtain p1 where p1: "p' = c # p1"
      by (cases p') (auto simp: prefix_def)
    with Cons.prems(2) have "cs = p1 @ sep @ q'" by simp
    from Cons.IH[OF p0(1) this] p0 p1 show ?thesis by simp
  qed
qed

lemma find_sub_None: "find_sub sep s = None \<Longrightarrow> s \<noteq> p @ sep @ q"
proof (induction s arbitrary: p)
  case Nil
  then show ?case by (simp split: if_splits)
next
  case (Cons c cs)
  from Cons.prems have np: "\<not> prefix sep (c # cs)" and n: "find_sub sep cs = None"
    by (auto split: if_splits option.splits)
  show ?case
  proof
    assume eq: "c # cs = p @ sep @ q"
    show False
    proof (cases p)
      case Nil
      with eq np show False by (simp add: prefix_def)
    next
      case (Cons d p1)
      with eq have "cs = p1 @ sep @ q" by simp
      with Cons.IH[OF n] show False by blast
    qed
  qed
qed

lemma contains_iff: "contains sep s \<longleftrightarrow> (\<exists>p q. s = p @ sep @ q)"
  unfolding contains_def
  by (metis find_sub_None find_sub_Some not_Some_eq surj_pair)

lemma unpack2_split1: "contains sep s \<Longrightarrow> \<exists>q a. unpack2 (split1 sep s) = Inr (q, a) \<and> find_sub sep s = Some (q, a)"
  by (auto simp: contains_def split1_def unpack2_def)



lemma one_line_total: "\<exists>cs. one_line nd raw = Inr cs"
  by (auto simp: one_line_def Let_def except_continue_def split: sum.splits)

lemma sep_loop_total: "\<exists>cs. sep_loop nd line seps = Inr cs"
proof (induction seps)
  case Nil
  then show ?case by simp
next
  case (Cons sep seps)
  show ?case
  proof (cases "contains sep line")
    case True
    then obtain q a where "unpack2 (split1 sep line) = Inr (q, a)"
      using unpack2_split1 by blast
    with True show ?thesis by simp
  next
    case False
    with Cons.IH show ?thesis by simp
  qed
qed

lemma numbered_line_total: "\<exists>cs. numbered_line nd raw = Inr cs"
  using sep_loop_total by (simp add: numbered_line_def Let_def)


subsection \<open>Trimming and lines\<close>

lemma strip_ends:
  assumes "strip y \<noteq> []"
  shows "\<not> isspace (hd (strip y)) \<and> \<not> isspace (last (strip y))"
proof -
  define z where "z = dropWhile isspace y"
  define w where "w = dropWhile isspace (rev z)"
  have s: "strip y = rev w" by (simp add: strip_def z_def w_def)
  with assms have w: "w \<noteq> []" by simp
  then have hw: "\<not> isspace (hd w)" unfolding w_def by (rule hd_dropWhile)
  from w have z: "z \<noteq> []" unfolding w_def by auto
  then have hz: "\<not> isspace (hd z)" unfolding z_def by (rule hd_dropWhile)
  obtain u where u: "rev z = u @ w"
    unfolding w_def by (metis takeWhile_dropWhile_id)
  with w have "last w = last (rev z)" by simp
  also have "\<dots> = hd z" using z by (simp add: last_rev)
  finally have "last w = hd z" .
  with hw hz s w show ?thesis by (simp add: hd_rev last_rev)
qed

lemma strip_id:
  assumes "s \<noteq> []" "\<not> isspace (hd s)" "\<not> isspace (last s)"
  shows "strip s = s"
proof -
  from assms(1,2) have 1: "dropWhile isspace s = s" by (cases s) auto
  from assms(1,3) have 2: "dropWhile isspace (rev s) = rev s"
    by (cases "rev s") (auto simp: last_rev[symmetric] hd_rev)
  show ?thesis by (simp add: strip_def 1 2)
qed

lemma set_strip: "set (strip y) \<subseteq> set y"
proof -
  have "set (strip y) = set (dropWhile isspace (rev (dropWhile isspace y)))"
    by (simp add: strip_def)
  also have "\<dots> \<subseteq> set (rev (dropWhile isspace y))" by (rule set_dropWhileD[THEN subsetI])
  also have "\<dots> \<subseteq> set y" using set_dropWhileD by fastforce
  finally show ?thesis .
qed

lemma set_collapse_ws: "c \<in> set (collapse_ws s) \<Longrightarrow> isspace c \<Longrightarrow> c = 32"
proof (induction s rule: collapse_ws.induct)
  case 1
  then show ?case by simp
next
  case (2 d ds)
  then show ?case by (auto split: if_splits)
qed

lemma splitlines_aux_line:
  "\<forall>c\<in>set l. \<not> is_linebreak c \<Longrightarrow> splitlines_aux cur (l @ rest) = splitlines_aux (cur @ l) rest"
proof (induction l arbitrary: cur)
  case Nil
  then show ?case by simp
next
  case (Cons c l)
  then have "\<not> is_linebreak c" by simp
  moreover from this have "c \<noteq> 13" by (auto simp: is_linebreak_def)
  ultimately show ?case using Cons by simp
qed

lemma splitlines_aux_newline: "splitlines_aux cur (10 # rest) = cur # splitlines_aux [] rest"
  by (simp add: is_linebreak_def)

lemma splitlines_join:
  "\<forall>l\<in>set ls. l \<noteq> [] \<and> (\<forall>c\<in>set l. \<not> is_linebreak c) \<Longrightarrow> splitlines (join [10] ls) = ls"
proof (induction "[10::nat]" ls rule: join.induct)
  case 1
  then show ?case by (simp add: splitlines_def)
next
  case (2 x)
  then have "splitlines_aux [] (x @ []) = splitlines_aux ([] @ x) []"
    by (intro splitlines_aux_line) simp
  with 2 show ?case by (simp add: splitlines_def)
next
  case (3 x y ys)
  then have x: "\<forall>c\<in>set x. \<not> is_linebreak c" and ih: "splitlines (join [10] (y # ys)) = y # ys"
    by simp_all
  have "splitlines (join [10] (x # y # ys)) = splitlines_aux [] (x @ 10 # join [10] (y # ys))"
    by (simp add: splitlines_def)
  also have "\<dots> = splitlines_aux ([] @ x) (10 # join [10] (y # ys))"
    using x by (rule splitlines_aux_line)
  also have "\<dots> = x # splitlines_aux [] (join [10] (y # ys))"
    by (simp add: splitlines_aux_newline del: splitlines_aux.simps)
  also have "\<dots> = x # y # ys" using ih by (simp add: splitlines_def)
  finally show ?case .
qed

lemma find_sub_char: "c \<notin> set pre \<Longrightarrow> find_sub [c] (pre @ c # rest) = Some (pre, rest)"
  by (induction pre) auto

lemma isspace_linebreak: "is_linebreak c \<Longrightarrow> isspace c \<and> c \<noteq> 32"
  by (auto simp: is_linebreak_def isspace_def)

subsection \<open>No extractor raises\<close>






subsection \<open>A text of digits\<close>

lemma first_cards_four_empty:
  assumes "pa text = Inr []" "pb text = Inr []" "pc text = Inr []" "pd text = Inr []"
  shows "first_cards [pa, pb, pc, pd, pe] text = pe text"
  using assms by (cases "pe text") auto

lemma sep_loop_none: "\<forall>s\<in>set seps. \<not> contains s line \<Longrightarrow> sep_loop nd line seps = Inr []"
  by (induction seps) auto

lemma splitlines_single:
  assumes "s \<noteq> []" "\<forall>c\<in>set s. \<not> is_linebreak c"
  shows "splitlines s = [s]"
proof -
  have "splitlines_aux [] (s @ []) = splitlines_aux ([] @ s) []"
    using assms(2) by (rule splitlines_aux_line)
  with assms(1) show ?thesis by (simp add: splitlines_def)
qed

lemma no_space_contains: "32 \<in> set sep \<Longrightarrow> 32 \<notin> set s \<Longrightarrow> \<not> contains sep s"
  by (auto simp: contains_iff)

lemma digits_text:
  assumes "s \<noteq> []" "\<forall>c\<in>set s. 48 \<le> c \<and> c \<le> 57"
  shows "parse_tsv_lines nd s = Inr []" "parse_q_a_one_line nd s = Inr []"
    "parse_q_a_two_lines nd s = Inr []" "parse_numbered_pairs nd s = Inr []"
proof -
  have ns: "\<forall>c\<in>set s. \<not> isspace c" using assms(2) by (auto simp: isspace_def)
  have nl: "\<forall>c\<in>set s. \<not> is_linebreak c" using assms(2) by (auto simp: is_linebreak_def)
  have lines: "splitlines s = [s]" using assms(1) nl by (rule splitlines_single)
  have "hd s \<in> set s" "last s \<in> set s" using assms(1) by simp_all
  with ns have st: "strip s = s" using assms(1) by (intro strip_id) auto
  have n32: "32 \<notin> set s" and n9: "9 \<notin> set s" using assms(2) by auto
  have tab: "\<not> contains [9] s" using n9 by (auto simp: contains_iff)
  show "parse_tsv_lines nd s = Inr []"
    by (simp add: parse_tsv_lines_def lines tsv_line_def st tab)
  have "\<not> contains (ustr '' A:'') s"
    by (rule no_space_contains) (simp_all add: ustr_def n32)
  moreover have "\<not> contains (ustr '' Answer:'') s"
    by (rule no_space_contains) (simp_all add: ustr_def n32)
  ultimately show "parse_q_a_one_line nd s = Inr []"
    by (simp add: parse_q_a_one_line_def lines one_line_def st assms(1))
  have "nonempty_lines s = [s]" by (simp add: nonempty_lines_def lines st assms(1))
  then show "parse_q_a_two_lines nd s = Inr []"
    by (simp add: parse_q_a_two_lines_def two_lines_loop.simps)
  obtain c r where cr: "s = c # r" using assms(1) by (cases s) auto
  have dig: "\<forall>c\<in>set s. isdecimal nd c" using assms(2) by (auto simp: isdecimal_def)
  have nb: "\<not> is_bullet c" using assms(2) cr by (auto simp: is_bullet_def)
  have "dropWhile isspace s = s" using ns cr by auto
  moreover have "takeWhile (isdecimal nd) s = s" "dropWhile (isdecimal nd) s = []"
    using dig by simp_all
  ultimately have "NUM_PREFIX nd s = None"
    using nb cr by (simp add: NUM_PREFIX_def num_group_def)
  moreover have "\<forall>sep\<in>set separators. \<not> contains sep s"
  proof
    fix sep assume "sep \<in> set separators"
    then have "32 \<in> set sep" by (auto simp: separators_def)
    then show "\<not> contains sep s" using n32 by (rule no_space_contains)
  qed
  then have "sep_loop nd s separators = Inr []"
    by (rule sep_loop_none)
  ultimately show "parse_numbered_pairs nd s = Inr []"
    by (simp add: parse_numbered_pairs_def lines numbered_line_def st assms(1) sub_prefix_def)
qed

lemma robust_parse_any_digits:
  assumes "s \<noteq> []" "\<forall>c\<in>set s. 48 \<le> c \<and> c \<le> 57"
  shows "robust_parse_any nd loads py_str s = parse_json_list nd loads py_str s"
  unfolding robust_parse_any_def
  using digits_text[OF assms, of nd] by (rule first_cards_four_empty)

lemma long_int_text_digits: "long_int_text \<noteq> []" "\<forall>c\<in>set long_int_text. 48 \<le> c \<and> c \<le> 57"
  by (simp_all add: long_int_text_def)

text \<open>
  Claim C4 fails on the code. On the text of 4301 digits \<open>1\<close> the four line-based
  extractors find no card, the JSON extractor is reached, \<open>json.loads\<close> raises
  \<open>ValueError\<close>, which \<open>except json.JSONDecodeError\<close> does not catch, and the
  exception leaves \<open>_parse_json_list\<close> and \<open>_robust_parse_any\<close>.
\<close>

theorem robust_parse_any_raises:
  "parse_json_list nd limit_loads py_str long_int_text = Inl ValueError \<and>
   robust_parse_any nd limit_loads py_str long_int_text = Inl ValueError"
proof -
  have "parse_json_list nd limit_loads py_str long_int_text = Inl ValueError"
    by (simp add: parse_json_list_def limit_loads_def)
  then show ?thesis
    by (simp add: robust_parse_any_digits[OF long_int_text_digits])
qed

subsection \<open>Evaluation on concrete inputs\<close>

lemmas ev = ustr_def isspace_def is_linebreak_def isdecimal_def strip_def splitlines_def
  contains_def split1_def startswith_def lower_char_def lower_def unpack2_def index_def
  ci_eq_def after_colon_def label_prefix_def Q_PREFIX_def A_PREFIX_def is_bullet_def
  num_group_def NUM_PREFIX_def sub_prefix_def matches_def card_def ascii_digits_only_def clean_piece_def accept_def
  tsv_line_def parse_tsv_lines_def one_line_try_def except_continue_def one_line_def
  parse_q_a_one_line_def nonempty_lines_def parse_q_a_two_lines_def separators_def
  has_q_label_def has_a_label_def pair_sides_def numbered_line_def parse_numbered_pairs_def
  Let_def

lemmas ev2 = heading_split.simps is_heading_def md_heading_def caps_heading_def is_upper_digit_def
  stripped_nonempty_def split_candidates_def para_sep_def char_encode_def char_decode_def
  flush_def restart_def chunk_step_def chunk_text_def slice_to_def slice_from_def norm_index_def


subsection \<open>The two-line extractor\<close>




















subsection \<open>The order of the extractors\<close>



subsection \<open>The single-line extractor\<close>

lemma lower_Cons: "lower (c # s) = lower_char c @ lower s"
  by (simp add: lower_def)

lemma lower_Nil: "lower [] = []"
  by (simp add: lower_def)

lemma lower_append: "lower (s @ t) = lower s @ lower t"
  by (simp add: lower_def)

lemma lower_char_cases:
  "lower_char c = [c + 32] \<and> 65 \<le> c \<and> c \<le> 90 \<or> lower_char c = [107] \<and> c = 8490 \<or>
   lower_char c = [105, 775] \<and> c = 304 \<or>
   lower_char c = [c] \<and> \<not> (65 \<le> c \<and> c \<le> 90) \<and> c \<noteq> 8490 \<and> c \<noteq> 304"
  by (simp add: lower_char_def)

lemma lower_label:
  "prefix (lit @ [58]) (lower s) \<Longrightarrow> 58 \<notin> set lit \<Longrightarrow> 32 \<notin> set lit \<Longrightarrow> 775 \<notin> set lit \<Longrightarrow>
   \<exists>pre rest. s = pre @ 58 # rest \<and> 58 \<notin> set pre \<and> 32 \<notin> set pre \<and> lower (pre @ [58]) = lit @ [58]"
proof (induction lit arbitrary: s)
  case Nil
  then obtain c cs where s: "s = c # cs" by (cases s) (auto simp: lower_Nil)
  with Nil.prems(1) have "prefix [58] (lower_char c @ lower cs)" by (simp add: lower_Cons)
  then have "c = 58" using lower_char_cases[of c] by (auto simp: prefix_Cons)
  with s show ?case
    by (intro exI[of _ "[]"] exI[of _ cs]) (simp add: lower_def lower_char_def)
next
  case (Cons x xs)
  then obtain c cs where s: "s = c # cs" by (cases s) (auto simp: lower_Nil)
  with Cons.prems(1) have p: "prefix (x # xs @ [58]) (lower_char c @ lower cs)" by (simp add: lower_Cons)
  have n304: "c \<noteq> 304"
  proof
    assume "c = 304"
    with p have "x = 105" "prefix (xs @ [58]) (775 # lower cs)" by (auto simp: lower_char_def)
    then show False using Cons.prems(4) by (cases xs) auto
  qed
  with lower_char_cases[of c] obtain y where y: "lower_char c = [y]" by auto
  with p have xy: "x = y" and p': "prefix (xs @ [58]) (lower cs)" by auto
  from Cons.IH[OF p'] Cons.prems obtain pre rest where
    pr: "cs = pre @ 58 # rest" "58 \<notin> set pre" "32 \<notin> set pre" "lower (pre @ [58]) = xs @ [58]"
    by auto
  have "c \<noteq> 58" "c \<noteq> 32" using y xy Cons.prems(2,3) by (auto simp: lower_char_def)
  with pr s y xy have "s = (c # pre) @ 58 # rest \<and> 58 \<notin> set (c # pre) \<and> 32 \<notin> set (c # pre) \<and>
      lower ((c # pre) @ [58]) = (x # xs) @ [58]"
    by (simp add: lower_Cons)
  then show ?case by blast
qed

lemma startswith_lower_q:
  "startswith (lower s) (ustr ''q:'') \<longleftrightarrow> (\<exists>c r. s = c # 58 # r \<and> (c = 113 \<or> c = 81))"
proof
  assume "startswith (lower s) (ustr ''q:'')"
  then have "prefix ([113] @ [58]) (lower s)" by (simp add: startswith_def ustr_def)
  from lower_label[OF this] obtain pre rest where
    pr: "s = pre @ 58 # rest" "58 \<notin> set pre" "32 \<notin> set pre" "lower (pre @ [58]) = [113] @ [58]"
    by auto
  from pr(4) obtain c where "pre = [c]" "lower_char c = [113]"
    using lower_char_cases
    by (cases pre; cases "tl pre") (auto simp: lower_Cons lower_Nil lower_append lower_char_def split: if_splits)
  then have "c = 113 \<or> c = 81" by (auto simp: lower_char_def split: if_splits)
  with pr(1) \<open>pre = [c]\<close> show "\<exists>c r. s = c # 58 # r \<and> (c = 113 \<or> c = 81)" by auto
next
  assume "\<exists>c r. s = c # 58 # r \<and> (c = 113 \<or> c = 81)"
  then show "startswith (lower s) (ustr ''q:'')"
    by (auto simp: startswith_def ustr_def lower_def lower_char_def)
qed

lemma find_sub_skip:
  "d \<noteq> [] \<Longrightarrow> hd d \<notin> set lab \<Longrightarrow>
   find_sub d (lab @ rest) = map_option (\<lambda>(p, q). (lab @ p, q)) (find_sub d rest)"
proof (induction lab)
  case Nil
  show ?case by (cases "find_sub d rest") auto
next
  case (Cons x lab)
  then have "\<not> prefix d (x # lab @ rest)" by (cases d) auto
  with Cons show ?case by (cases "find_sub d rest") auto
qed

lemma find_sub_colon: "58 \<notin> set pre \<Longrightarrow> find_sub [58] (pre @ 58 # rest) = Some (pre, rest)"
  by (induction pre) auto

lemma one_line_try_cut:
  assumes lab: "prefix (lit @ [58]) (lower line)" "58 \<notin> set lit" "32 \<notin> set lit" "775 \<notin> set lit"
    and d: "contains d line" "d \<noteq> []" "hd d = 32"
  shows "\<exists>lab p r. line = lab @ p @ d @ r \<and> lower lab = lit @ [58] \<and>
           (\<forall>p' r'. line = p' @ d @ r' \<longrightarrow> length (lab @ p) \<le> length p') \<and>
           one_line_try nd d line = Inr (accept (clean_piece nd p) (clean_piece nd r))"
proof -
  from lower_label[OF lab] obtain pre rest where
    pr: "line = pre @ 58 # rest" "58 \<notin> set pre" "32 \<notin> set pre" "lower (pre @ [58]) = lit @ [58]"
    by auto
  have line: "line = (pre @ [58]) @ rest" using pr(1) by simp
  have skip: "hd d \<notin> set (pre @ [58])" using d(3) pr(3) by simp
  from d(1) obtain P r where Pr: "find_sub d line = Some (P, r)"
    by (auto simp: contains_def)
  with find_sub_skip[OF d(2) skip, of rest] line obtain p where
    p: "find_sub d rest = Some (p, r)" "P = (pre @ [58]) @ p"
    by (cases "find_sub d rest") auto
  have c: "split1 [58] line = [pre, rest]"
    using find_sub_colon[OF pr(2), of rest] pr(1) by (simp add: split1_def)
  have s1: "split1 d rest = [p, r]" by (simp add: split1_def p(1))
  have s2: "split1 d line = [P, r]" by (simp add: split1_def Pr)
  have "one_line_try nd d line = Inr (accept (clean_piece nd p) (clean_piece nd r))"
    by (simp add: one_line_try_def c s1 s2 index_def)
  moreover have "line = (pre @ [58]) @ p @ d @ r"
    using find_sub_Some[OF Pr] p(2) by simp
  moreover have "\<forall>p' r'. line = p' @ d @ r' \<longrightarrow> length ((pre @ [58]) @ p) \<le> length p'"
    using find_sub_first[OF Pr] p(2) by blast
  ultimately show ?thesis using pr(4) by blast
qed

lemma startswith_lower_question:
  "startswith (lower s) (ustr ''question:'') \<longleftrightarrow> (\<exists>lab r. s = lab @ r \<and> lower lab = ustr ''question:'')"
proof
  assume "startswith (lower s) (ustr ''question:'')"
  then have "prefix (ustr ''question'' @ [58]) (lower s)" by (simp add: startswith_def ustr_def)
  from lower_label[OF this] obtain pre rest where
    "s = pre @ 58 # rest" "lower (pre @ [58]) = ustr ''question'' @ [58]"
    by (auto simp: ustr_def)
  then have "s = (pre @ [58]) @ rest \<and> lower (pre @ [58]) = ustr ''question:''"
    by (simp add: ustr_def)
  then show "\<exists>lab r. s = lab @ r \<and> lower lab = ustr ''question:''" by blast
next
  assume "\<exists>lab r. s = lab @ r \<and> lower lab = ustr ''question:''"
  then show "startswith (lower s) (ustr ''question:'')"
    by (auto simp: startswith_def lower_append)
qed

lemma for_lines_concat:
  "(\<And>raw. \<exists>cs. body raw = Inr cs) \<Longrightarrow>
   for_lines body out raws =
     Inr (out @ concat (map (\<lambda>raw. case body raw of Inr cs \<Rightarrow> cs | Inl e \<Rightarrow> []) raws))"
proof (induction raws arbitrary: out)
  case Nil
  then show ?case by simp
next
  case (Cons raw raws)
  from Cons.prems obtain cs where "body raw = Inr cs" by blast
  with Cons.IH[OF Cons.prems, of "out @ cs"] show ?case by simp
qed

text \<open>
  Claim C10. The single-line extractor handles each line of the text on its own. On a
  stripped line it makes a card only in two cases: the line starts with \<open>q:\<close> or \<open>Q:\<close>
  and holds the substring \<open>" A:"\<close>; or it holds \<open>" Answer:"\<close> and starts with \<open>q:\<close>,
  \<open>Q:\<close> or a case variant of \<open>question:\<close>. The question label is read in either case,
  the delimiter exactly as written: a line with neither delimiter, such as
  \<open>q: foo a: bar\<close> whose answer label is in lower case, gives no card, and neither does
  \<open>Question: x A: y\<close>. When a card can be made, the line is cut at the first occurrence
  of the delimiter: the question is what lies between the label and it, the answer what
  follows it.
\<close>

theorem one_line_label_and_delimiter:
  "(startswith (lower (strip raw)) (ustr ''q:'') \<longleftrightarrow>
      (\<exists>c r. strip raw = c # 58 # r \<and> (c = 113 \<or> c = 81))) \<and>
   (startswith (lower (strip raw)) (ustr ''question:'') \<longleftrightarrow>
      (\<exists>lab r. strip raw = lab @ r \<and> lower lab = ustr ''question:'')) \<and>
   (\<not> contains (ustr '' A:'') (strip raw) \<and> \<not> contains (ustr '' Answer:'') (strip raw) \<longrightarrow>
      one_line nd raw = Inr []) \<and>
   (\<not> (contains (ustr '' A:'') (strip raw) \<and> startswith (lower (strip raw)) (ustr ''q:'')) \<and>
    \<not> (contains (ustr '' Answer:'') (strip raw) \<and>
        (startswith (lower (strip raw)) (ustr ''q:'') \<or>
         startswith (lower (strip raw)) (ustr ''question:''))) \<longrightarrow>
      one_line nd raw = Inr []) \<and>
   (contains (ustr '' A:'') (strip raw) \<and> startswith (lower (strip raw)) (ustr ''q:'') \<longrightarrow>
      (\<exists>lab p r. strip raw = lab @ p @ ustr '' A:'' @ r \<and> lower lab = ustr ''q:'' \<and>
         (\<forall>p' r'. strip raw = p' @ ustr '' A:'' @ r' \<longrightarrow> length (lab @ p) \<le> length p') \<and>
         one_line nd raw = Inr (accept (clean_piece nd p) (clean_piece nd r)))) \<and>
   (\<not> (contains (ustr '' A:'') (strip raw) \<and> startswith (lower (strip raw)) (ustr ''q:'')) \<and>
    contains (ustr '' Answer:'') (strip raw) \<and>
    (startswith (lower (strip raw)) (ustr ''q:'') \<or> startswith (lower (strip raw)) (ustr ''question:'')) \<longrightarrow>
      (\<exists>lab p r. strip raw = lab @ p @ ustr '' Answer:'' @ r \<and>
         (lower lab = ustr ''q:'' \<or> lower lab = ustr ''question:'') \<and>
         (\<forall>p' r'. strip raw = p' @ ustr '' Answer:'' @ r' \<longrightarrow> length (lab @ p) \<le> length p') \<and>
         one_line nd raw = Inr (accept (clean_piece nd p) (clean_piece nd r)))) \<and>
   parse_q_a_one_line nd text =
     Inr (concat (map (\<lambda>raw. case one_line nd raw of Inr cs \<Rightarrow> cs | Inl e \<Rightarrow> []) (splitlines text))) \<and>
   parse_q_a_one_line nd (ustr ''q: foo a: bar'') = Inr [] \<and>
   parse_q_a_one_line nd (ustr ''Question: x A: y'') = Inr [] \<and>
   parse_q_a_one_line nd (ustr ''Q: What is 2+2? A: 4'') = Inr [card (ustr ''What is 2+2?'') (ustr ''4'')] \<and>
   parse_q_a_one_line nd (ustr ''QUESTION: x Answer: y'') = Inr [card (ustr ''x'') (ustr ''y'')]"
proof (intro conjI impI)
  show "startswith (lower (strip raw)) (ustr ''q:'') \<longleftrightarrow>
      (\<exists>c r. strip raw = c # 58 # r \<and> (c = 113 \<or> c = 81))"
    by (rule startswith_lower_q)
next
  show "startswith (lower (strip raw)) (ustr ''question:'') \<longleftrightarrow>
      (\<exists>lab r. strip raw = lab @ r \<and> lower lab = ustr ''question:'')"
    by (rule startswith_lower_question)
next
  assume "\<not> contains (ustr '' A:'') (strip raw) \<and> \<not> contains (ustr '' Answer:'') (strip raw)"
  then show "one_line nd raw = Inr []"
    by (simp add: one_line_def Let_def)
next
  assume "\<not> (contains (ustr '' A:'') (strip raw) \<and> startswith (lower (strip raw)) (ustr ''q:'')) \<and>
    \<not> (contains (ustr '' Answer:'') (strip raw) \<and>
        (startswith (lower (strip raw)) (ustr ''q:'') \<or>
         startswith (lower (strip raw)) (ustr ''question:'')))"
  then show "one_line nd raw = Inr []"
    by (auto simp: one_line_def Let_def)
next
  assume a: "contains (ustr '' A:'') (strip raw) \<and> startswith (lower (strip raw)) (ustr ''q:'')"
  then have ne: "strip raw \<noteq> []" by (auto simp: startswith_lower_q)
  from a have lab: "prefix ([113] @ [58]) (lower (strip raw))"
    by (simp add: startswith_def ustr_def)
  have d: "ustr '' A:'' \<noteq> []" "hd (ustr '' A:'') = 32" by (simp_all add: ustr_def)
  from one_line_try_cut[OF lab _ _ _ _ d, of nd] a obtain lab p r where
    "strip raw = lab @ p @ ustr '' A:'' @ r" "lower lab = [113] @ [58]"
    "\<forall>p' r'. strip raw = p' @ ustr '' A:'' @ r' \<longrightarrow> length (lab @ p) \<le> length p'"
    "one_line_try nd (ustr '' A:'') (strip raw) = Inr (accept (clean_piece nd p) (clean_piece nd r))"
    by auto
  moreover from this(4) a ne
  have "one_line nd raw = Inr (accept (clean_piece nd p) (clean_piece nd r))"
    by (simp add: one_line_def Let_def except_continue_def)
  moreover have "[113] @ [58] = ustr ''q:''" by (simp add: ustr_def)
  ultimately show "\<exists>lab p r. strip raw = lab @ p @ ustr '' A:'' @ r \<and> lower lab = ustr ''q:'' \<and>
         (\<forall>p' r'. strip raw = p' @ ustr '' A:'' @ r' \<longrightarrow> length (lab @ p) \<le> length p') \<and>
         one_line nd raw = Inr (accept (clean_piece nd p) (clean_piece nd r))"
    by metis
next
  assume a: "\<not> (contains (ustr '' A:'') (strip raw) \<and> startswith (lower (strip raw)) (ustr ''q:'')) \<and>
    contains (ustr '' Answer:'') (strip raw) \<and>
    (startswith (lower (strip raw)) (ustr ''q:'') \<or> startswith (lower (strip raw)) (ustr ''question:''))"
  then have ne: "strip raw \<noteq> []" by (auto simp: startswith_def ustr_def lower_Nil)
  have d: "ustr '' Answer:'' \<noteq> []" "hd (ustr '' Answer:'') = 32" by (simp_all add: ustr_def)
  from a obtain lit where lit: "prefix (lit @ [58]) (lower (strip raw))"
      "lit @ [58] = ustr ''q:'' \<or> lit @ [58] = ustr ''question:''"
      "58 \<notin> set lit" "32 \<notin> set lit" "775 \<notin> set lit"
  proof (cases "startswith (lower (strip raw)) (ustr ''q:'')")
    case True
    then show ?thesis by (intro that[of "[113]"]) (simp_all add: startswith_def ustr_def)
  next
    case False
    with a have "startswith (lower (strip raw)) (ustr ''question:'')" by simp
    then show ?thesis by (intro that[of "ustr ''question''"]) (simp_all add: startswith_def ustr_def)
  qed
  from one_line_try_cut[OF lit(1,3,4,5) _ d, of nd] a obtain lab p r where
    "strip raw = lab @ p @ ustr '' Answer:'' @ r" "lower lab = lit @ [58]"
    "\<forall>p' r'. strip raw = p' @ ustr '' Answer:'' @ r' \<longrightarrow> length (lab @ p) \<le> length p'"
    "one_line_try nd (ustr '' Answer:'') (strip raw) = Inr (accept (clean_piece nd p) (clean_piece nd r))"
    by auto
  moreover from this(4) a ne
  have "one_line nd raw = Inr (accept (clean_piece nd p) (clean_piece nd r))"
    by (auto simp: one_line_def Let_def except_continue_def)
  ultimately show "\<exists>lab p r. strip raw = lab @ p @ ustr '' Answer:'' @ r \<and>
         (lower lab = ustr ''q:'' \<or> lower lab = ustr ''question:'') \<and>
         (\<forall>p' r'. strip raw = p' @ ustr '' Answer:'' @ r' \<longrightarrow> length (lab @ p) \<le> length p') \<and>
         one_line nd raw = Inr (accept (clean_piece nd p) (clean_piece nd r))"
    using lit(2) by metis
next
  show "parse_q_a_one_line nd text =
     Inr (concat (map (\<lambda>raw. case one_line nd raw of Inr cs \<Rightarrow> cs | Inl e \<Rightarrow> []) (splitlines text)))"
    unfolding parse_q_a_one_line_def
    using for_lines_concat[of "one_line nd" "[]" "splitlines text"] one_line_total by simp
next
  show "parse_q_a_one_line nd (ustr ''q: foo a: bar'') = Inr []"
    by (simp add: ev)
next
  show "parse_q_a_one_line nd (ustr ''Question: x A: y'') = Inr []"
    by (simp add: ev)
next
  show "parse_q_a_one_line nd (ustr ''Q: What is 2+2? A: 4'') = Inr [card (ustr ''What is 2+2?'') (ustr ''4'')]"
    by (simp add: ev)
next
  show "parse_q_a_one_line nd (ustr ''QUESTION: x Answer: y'') = Inr [card (ustr ''x'') (ustr ''y'')]"
    by (simp add: ev)
qed

theorem one_line_label_and_delimiter_witness:
  "\<not> contains (ustr '' A:'') (strip (ustr ''q: foo a: bar'')) \<and>
   \<not> contains (ustr '' Answer:'') (strip (ustr ''q: foo a: bar'')) \<and>
   startswith (lower (strip (ustr ''q: foo a: bar''))) (ustr ''q:'') \<and>
   one_line ascii_digits_only (ustr ''q: foo a: bar'') = Inr [] \<and>
   contains (ustr '' A:'') (strip (ustr ''Question: x A: y'')) \<and>
   \<not> startswith (lower (strip (ustr ''Question: x A: y''))) (ustr ''q:'') \<and>
   \<not> contains (ustr '' Answer:'') (strip (ustr ''Question: x A: y'')) \<and>
   one_line ascii_digits_only (ustr ''Question: x A: y'') = Inr [] \<and>
   contains (ustr '' A:'') (strip (ustr ''Q: What is 2+2? A: 4'')) \<and>
   startswith (lower (strip (ustr ''Q: What is 2+2? A: 4''))) (ustr ''q:'') \<and>
   one_line ascii_digits_only (ustr ''Q: What is 2+2? A: 4'') =
     Inr [card (ustr ''What is 2+2?'') (ustr ''4'')]"
proof -
  have n: "\<not> contains (ustr '' A:'') (strip (ustr ''q: foo a: bar'')) \<and>
      \<not> contains (ustr '' Answer:'') (strip (ustr ''q: foo a: bar''))"
    by (simp add: ev)
  have q: "startswith (lower (strip (ustr ''q: foo a: bar''))) (ustr ''q:'')"
    by (simp add: ev)
  have m: "contains (ustr '' A:'') (strip (ustr ''Question: x A: y'')) \<and>
      \<not> startswith (lower (strip (ustr ''Question: x A: y''))) (ustr ''q:'') \<and>
      \<not> contains (ustr '' Answer:'') (strip (ustr ''Question: x A: y''))"
    by (simp add: ev)
  have c: "contains (ustr '' A:'') (strip (ustr ''Q: What is 2+2? A: 4'')) \<and>
      startswith (lower (strip (ustr ''Q: What is 2+2? A: 4''))) (ustr ''q:'')"
    by (simp add: ev)
  have r: "one_line ascii_digits_only (ustr ''Q: What is 2+2? A: 4'') =
     Inr [card (ustr ''What is 2+2?'') (ustr ''4'')]"
    by (simp add: ev)
  from one_line_label_and_delimiter[of "ustr ''q: foo a: bar''" ascii_digits_only] n
  have r1: "one_line ascii_digits_only (ustr ''q: foo a: bar'') = Inr []" by blast
  from one_line_label_and_delimiter[of "ustr ''Question: x A: y''" ascii_digits_only] m
  have r2: "one_line ascii_digits_only (ustr ''Question: x A: y'') = Inr []" by blast
  from n q m c r r1 r2 show ?thesis by blast
qed

subsection \<open>The numbered-pairs extractor\<close>

lemma sep_loop_first:
  "sep \<in> set seps \<Longrightarrow> \<forall>s'\<in>set (takeWhile (\<lambda>x. x \<noteq> sep) seps). \<not> contains s' line \<Longrightarrow>
   find_sub sep line = Some (p, r) \<Longrightarrow> sep_loop nd line seps = Inr (pair_sides nd p r)"
proof (induction seps)
  case Nil
  then show ?case by simp
next
  case (Cons s seps)
  show ?case
  proof (cases "s = sep")
    case True
    with Cons.prems(3) show ?thesis
      by (simp add: contains_def split1_def unpack2_def)
  next
    case False
    with Cons show ?thesis by simp
  qed
qed

lemma sep_loop_shape:
  "sep_loop nd line seps = Inr cs \<Longrightarrow> cs = [] \<or> (\<exists>p r. cs = pair_sides nd p r)"
proof (induction seps)
  case Nil
  then show ?case by simp
next
  case (Cons s seps)
  show ?case
  proof (cases "contains s line")
    case True
    then obtain q a where "unpack2 (split1 s line) = Inr (q, a)"
      using unpack2_split1 by blast
    with True Cons.prems show ?thesis by auto
  next
    case False
    with Cons show ?thesis by simp
  qed
qed

lemma pair_sides_cards:
  "length (pair_sides nd p r) \<le> 1 \<and>
   (\<forall>c\<in>set (pair_sides nd p r). question c \<noteq> [] \<and> answer c \<noteq> [] \<and> source_chunk c = 0)"
  by (simp add: pair_sides_def accept_def card_def Let_def)

lemma no_ws_run_Cons:
  "no_ws_run (a # xs) \<longleftrightarrow> (xs = [] \<or> \<not> (isspace a \<and> isspace (hd xs))) \<and> no_ws_run xs"
  by (cases xs) auto

lemma hd_collapse_ws:
  "collapse_ws t \<noteq> [] \<Longrightarrow> isspace (hd (collapse_ws t)) \<Longrightarrow> t \<noteq> [] \<and> isspace (hd t)"
  by (cases t) (auto simp: isspace_def split: if_splits)

lemma no_ws_run_collapse_ws: "no_ws_run (collapse_ws s)"
proof (induction s rule: collapse_ws.induct)
  case 1
  show ?case by simp
next
  case (2 c cs)
  show ?case
  proof (cases "isspace c")
    case True
    define X where "X = collapse_ws (dropWhile isspace cs)"
    from True 2 have ih: "no_ws_run X" by (simp add: X_def)
    have "X = [] \<or> \<not> isspace (hd X)"
    proof (cases "X = []")
      case False
      show ?thesis
      proof (rule disjI2, rule notI)
        assume "isspace (hd X)"
        with False hd_collapse_ws[of "dropWhile isspace cs"]
        have "dropWhile isspace cs \<noteq> []" "isspace (hd (dropWhile isspace cs))"
          by (simp_all add: X_def)
        then show False using hd_dropWhile[of isspace cs] by simp
      qed
    qed simp
    with ih True show ?thesis by (auto simp: no_ws_run_Cons X_def)
  next
    case False
    with 2 show ?thesis by (simp add: no_ws_run_Cons)
  qed
qed

lemma no_ws_run_dropWhile: "no_ws_run xs \<Longrightarrow> no_ws_run (dropWhile P xs)"
  by (induction xs) (auto simp: no_ws_run_Cons)

lemma no_ws_run_prefix: "no_ws_run (xs @ ys) \<Longrightarrow> no_ws_run xs"
proof (induction xs)
  case Nil
  show ?case by simp
next
  case (Cons a xs)
  then show ?case by (cases xs) (auto simp: no_ws_run_Cons)
qed

lemma strip_prefix_dropWhile: "\<exists>t. dropWhile isspace s = strip s @ t"
proof -
  define y where "y = dropWhile isspace s"
  have "rev (takeWhile isspace (rev y) @ dropWhile isspace (rev y)) = y"
    by (simp only: takeWhile_dropWhile_id rev_rev_ident)
  then have "y = rev (dropWhile isspace (rev y)) @ rev (takeWhile isspace (rev y))"
    by (simp only: rev_append)
  then show ?thesis unfolding y_def strip_def by blast
qed

lemma no_ws_run_strip: "no_ws_run s \<Longrightarrow> no_ws_run (strip s)"
proof -
  assume "no_ws_run s"
  then have "no_ws_run (dropWhile isspace s)" by (rule no_ws_run_dropWhile)
  moreover obtain t where "dropWhile isspace s = strip s @ t"
    using strip_prefix_dropWhile by blast
  ultimately show ?thesis using no_ws_run_prefix by metis
qed

lemma single_spaced_clean_piece: "single_spaced (clean_piece nd s)"
proof -
  obtain x where x: "clean_piece nd s = strip (collapse_ws x)"
    by (metis clean_piece_def)
  have 1: "strip (collapse_ws x) = [] \<or>
      (\<not> isspace (hd (strip (collapse_ws x))) \<and> \<not> isspace (last (strip (collapse_ws x))))"
    using strip_ends[of "collapse_ws x"] by blast
  have 2: "list_all (\<lambda>c. isspace c \<longrightarrow> c = 32) (strip (collapse_ws x))"
    using set_strip[of "collapse_ws x"] set_collapse_ws[of _ x] by (auto simp: list_all_iff)
  have 3: "no_ws_run (strip (collapse_ws x))"
    by (intro no_ws_run_strip no_ws_run_collapse_ws)
  from 1 2 3 show ?thesis by (simp add: single_spaced_def x)
qed

lemma length_strip_le: "length (strip s) \<le> length s"
proof -
  have "length (strip s) \<le> length (rev (dropWhile isspace s))"
    unfolding strip_def by (metis length_dropWhile_le length_rev)
  also have "\<dots> \<le> length s" by (simp add: length_dropWhile_le)
  finally show ?thesis .
qed

lemma dropWhile_length_eq: "length (dropWhile P xs) = length xs \<Longrightarrow> dropWhile P xs = xs"
proof -
  assume a: "length (dropWhile P xs) = length xs"
  have "length (takeWhile P xs) + length (dropWhile P xs) = length xs"
    by (metis length_append takeWhile_dropWhile_id)
  with a have "takeWhile P xs = []" by simp
  then show ?thesis by (metis append_Nil takeWhile_dropWhile_id)
qed

lemma strip_length_eq: "length (strip s) = length s \<Longrightarrow> strip s = s"
proof -
  assume a: "length (strip s) = length s"
  have 1: "length (strip s) \<le> length (dropWhile isspace s)"
    unfolding strip_def by (metis length_dropWhile_le length_rev)
  have 2: "length (dropWhile isspace s) \<le> length s" by (rule length_dropWhile_le)
  from a 1 2 have e1: "length (dropWhile isspace s) = length s" by simp
  then have d1: "dropWhile isspace s = s" by (rule dropWhile_length_eq)
  from a have "length (dropWhile isspace (rev s)) = length (rev s)"
    by (simp add: strip_def d1)
  then have "dropWhile isspace (rev s) = rev s" by (rule dropWhile_length_eq)
  then show ?thesis by (simp add: strip_def d1)
qed

lemma length_collapse_ws_le: "length (collapse_ws s) \<le> length s"
proof (induction s rule: collapse_ws.induct)
  case 1
  show ?case by simp
next
  case (2 c cs)
  show ?case
  proof (cases "isspace c")
    case True
    with 2 have "length (collapse_ws (dropWhile isspace cs)) \<le> length (dropWhile isspace cs)" by simp
    also have "\<dots> \<le> length cs" by (rule length_dropWhile_le)
    finally show ?thesis using True by simp
  next
    case False
    with 2 show ?thesis by simp
  qed
qed

lemma after_colon_shorter: "after_colon s = Some r \<Longrightarrow> length r < length s"
  by (cases s) (auto simp: after_colon_def less_Suc_eq_le length_dropWhile_le split: if_splits)

lemma label_prefix_shorter: "label_prefix h t s = Some r \<Longrightarrow> length r < length s"
proof -
  assume a: "label_prefix h t s = Some r"
  then obtain c r0 where d: "dropWhile isspace s = c # r0"
    by (cases "dropWhile isspace s") (auto simp: label_prefix_def)
  have "length (c # r0) \<le> length s" using length_dropWhile_le[of isspace s] d by simp
  moreover from a d have "after_colon r0 = Some r \<or> after_colon (drop (length t) r0) = Some r"
    by (auto simp: label_prefix_def split: if_splits option.splits)
  then have "length r < length r0"
    using after_colon_shorter[of r0 r] after_colon_shorter[of "drop (length t) r0" r] by auto
  ultimately show ?thesis by simp
qed

lemma num_group_shorter: "num_group nd t = Some r \<Longrightarrow> length r < length t"
proof -
  assume a: "num_group nd t = Some r"
  show ?thesis
  proof (cases "takeWhile (isdecimal nd) t \<noteq> [] \<and> dropWhile (isdecimal nd) t \<noteq> [] \<and>
      (hd (dropWhile (isdecimal nd) t) = 41 \<or> hd (dropWhile (isdecimal nd) t) = 46 \<or>
       hd (dropWhile (isdecimal nd) t) = 45 \<or> hd (dropWhile (isdecimal nd) t) = 58)")
    case True
    with a have r: "r = tl (dropWhile (isdecimal nd) t)" by (simp add: num_group_def Let_def)
    from True have "length (tl (dropWhile (isdecimal nd) t)) < length (dropWhile (isdecimal nd) t)"
      by (cases "dropWhile (isdecimal nd) t") auto
    also have "\<dots> \<le> length t" by (rule length_dropWhile_le)
    finally show ?thesis using r by simp
  next
    case False
    with a show ?thesis by (cases t) (auto simp: num_group_def Let_def split: if_splits)
  qed
qed

lemma NUM_PREFIX_shorter: "NUM_PREFIX nd s = Some r \<Longrightarrow> length r < length s"
proof -
  assume a: "NUM_PREFIX nd s = Some r"
  define s1 where "s1 = dropWhile isspace s"
  have l1: "length s1 \<le> length s" unfolding s1_def by (rule length_dropWhile_le)
  from a obtain rest where rest: "r = dropWhile isspace rest"
      "(\<exists>c r0. s1 = c # r0 \<and> num_group nd (dropWhile isspace r0) = Some rest) \<or> num_group nd s1 = Some rest"
    by (auto simp: NUM_PREFIX_def Let_def s1_def split: option.splits list.splits if_splits)
  have "length rest < length s1"
  proof -
    from rest(2) show ?thesis
    proof
      assume "\<exists>c r0. s1 = c # r0 \<and> num_group nd (dropWhile isspace r0) = Some rest"
      then obtain c r0 where c: "s1 = c # r0" "num_group nd (dropWhile isspace r0) = Some rest" by blast
      from num_group_shorter[OF c(2)] have "length rest < length (dropWhile isspace r0)" .
      also have "\<dots> \<le> length r0" by (rule length_dropWhile_le)
      finally show ?thesis using c(1) by simp
    next
      assume "num_group nd s1 = Some rest"
      then show ?thesis by (rule num_group_shorter)
    qed
  qed
  moreover have "length r \<le> length rest" unfolding rest(1) by (rule length_dropWhile_le)
  ultimately show ?thesis using l1 by simp
qed

lemma sub_prefix_length:
  assumes "\<And>x r. pat x = Some r \<Longrightarrow> length r < length x"
  shows "length (sub_prefix pat s) \<le> length s"
    and "length (sub_prefix pat s) = length s \<Longrightarrow> pat s = None"
  using assms[of s] by (cases "pat s"; force simp: sub_prefix_def)+

lemma plain_subs:
  assumes "clean_piece nd s = s"
  shows "strip s = s" "NUM_PREFIX nd s = None" "Q_PREFIX s = None" "A_PREFIX s = None"
    "strip (collapse_ws s) = s"
proof -
  define s0 where "s0 = strip s"
  define s1 where "s1 = sub_prefix (NUM_PREFIX nd) s0"
  define s2 where "s2 = sub_prefix Q_PREFIX s1"
  define s3 where "s3 = sub_prefix A_PREFIX s2"
  have c: "s = strip (collapse_ws s3)"
    using assms by (simp add: clean_piece_def Let_def s0_def s1_def s2_def s3_def)
  have Q: "\<And>x r. Q_PREFIX x = Some r \<Longrightarrow> length r < length x"
    unfolding Q_PREFIX_def by (rule label_prefix_shorter)
  have A: "\<And>x r. A_PREFIX x = Some r \<Longrightarrow> length r < length x"
    unfolding A_PREFIX_def by (rule label_prefix_shorter)
  have N: "\<And>x r. NUM_PREFIX nd x = Some r \<Longrightarrow> length r < length x"
    by (rule NUM_PREFIX_shorter)
  have l0: "length s0 \<le> length s" unfolding s0_def by (rule length_strip_le)
  have l1: "length s1 \<le> length s0" unfolding s1_def by (rule sub_prefix_length(1)[of "NUM_PREFIX nd", OF N])
  have l2: "length s2 \<le> length s1" unfolding s2_def by (rule sub_prefix_length(1)[of Q_PREFIX, OF Q])
  have l3: "length s3 \<le> length s2" unfolding s3_def by (rule sub_prefix_length(1)[of A_PREFIX, OF A])
  have l4: "length s \<le> length s3"
    using length_strip_le[of "collapse_ws s3"] length_collapse_ws_le[of s3] c by simp
  from l0 l1 l2 l3 l4 have e: "length s0 = length s" "length s1 = length s0"
    "length s2 = length s1" "length s3 = length s2" by simp_all
  from e(1) show st: "strip s = s" unfolding s0_def by (rule strip_length_eq)
  then have s0: "s0 = s" by (simp add: s0_def)
  have n: "NUM_PREFIX nd s0 = None"
  proof (cases "NUM_PREFIX nd s0")
    case None
    then show ?thesis .
  next
    case (Some r)
    with N[of s0 r] e(2) show ?thesis by (simp add: s1_def sub_prefix_def)
  qed
  then show "NUM_PREFIX nd s = None" by (simp add: s0)
  from n have s1: "s1 = s" by (simp add: s1_def sub_prefix_def s0)
  have q: "Q_PREFIX s1 = None"
  proof (cases "Q_PREFIX s1")
    case None
    then show ?thesis .
  next
    case (Some r)
    with Q[of s1 r] e(3) show ?thesis by (simp add: s2_def sub_prefix_def)
  qed
  then show "Q_PREFIX s = None" by (simp add: s1)
  from q have s2: "s2 = s" by (simp add: s2_def sub_prefix_def s1)
  have a: "A_PREFIX s2 = None"
  proof (cases "A_PREFIX s2")
    case None
    then show ?thesis .
  next
    case (Some r)
    with A[of s2 r] e(4) show ?thesis by (simp add: s3_def sub_prefix_def)
  qed
  then show "A_PREFIX s = None" by (simp add: s2)
  from a have "s3 = s" by (simp add: s3_def sub_prefix_def s2)
  with c show "strip (collapse_ws s) = s" by simp
qed

lemma clean_piece_ends:
  "clean_piece nd s \<noteq> [] \<Longrightarrow> \<not> isspace (hd (clean_piece nd s)) \<and> \<not> isspace (last (clean_piece nd s))"
  using single_spaced_clean_piece[of nd s] by (simp add: single_spaced_def)

lemma dropWhile_ws_run:
  "list_all isspace w \<Longrightarrow> q \<noteq> [] \<Longrightarrow> \<not> isspace (hd q) \<Longrightarrow> dropWhile isspace (w @ q) = q"
  by (induction w) (auto simp: neq_Nil_conv)

lemma strip_labelled:
  assumes "q \<noteq> []" "\<not> isspace (last q)" "\<not> isspace h"
  shows "strip (h # c # w @ q) = h # c # w @ q"
  using assms by (intro strip_id) simp_all

lemma clean_piece_Q_label:
  assumes q: "q \<noteq> []" "clean_piece nd q = q" and w: "list_all isspace w"
  shows "clean_piece nd (ustr ''Q:'' @ w @ q) = q"
proof -
  from clean_piece_ends[of nd q] q have e: "\<not> isspace (hd q)" "\<not> isspace (last q)" by simp_all
  have st: "strip (81 # 58 # w @ q) = 81 # 58 # w @ q"
    using q(1) e(2) by (intro strip_labelled) (simp_all add: isspace_def)
  have n: "NUM_PREFIX nd (81 # 58 # w @ q) = None"
    by (simp add: NUM_PREFIX_def num_group_def is_bullet_def isdecimal_def isspace_def Let_def)
  have dw: "dropWhile isspace (w @ q) = q" using w q(1) e(1) by (rule dropWhile_ws_run)
  have l: "Q_PREFIX (81 # 58 # w @ q) = Some q"
    by (simp add: Q_PREFIX_def label_prefix_def after_colon_def ci_eq_def isspace_def ustr_def dw)
  from plain_subs[OF q(2)] have p: "A_PREFIX q = None" "strip (collapse_ws q) = q" by simp_all
  show ?thesis
    by (simp add: clean_piece_def ustr_def st n l p sub_prefix_def)
qed

lemma clean_piece_A_label:
  assumes q: "q \<noteq> []" "clean_piece nd q = q" and w: "list_all isspace w"
  shows "clean_piece nd (ustr ''A:'' @ w @ q) = q"
proof -
  from clean_piece_ends[of nd q] q have e: "\<not> isspace (hd q)" "\<not> isspace (last q)" by simp_all
  have st: "strip (65 # 58 # w @ q) = 65 # 58 # w @ q"
    using q(1) e(2) by (intro strip_labelled) (simp_all add: isspace_def)
  have n: "NUM_PREFIX nd (65 # 58 # w @ q) = None"
    by (simp add: NUM_PREFIX_def num_group_def is_bullet_def isdecimal_def isspace_def Let_def)
  have dw: "dropWhile isspace (w @ q) = q" using w q(1) e(1) by (rule dropWhile_ws_run)
  have l1: "Q_PREFIX (65 # 58 # w @ q) = None"
    by (simp add: Q_PREFIX_def label_prefix_def after_colon_def ci_eq_def isspace_def ustr_def)
  have l: "A_PREFIX (65 # 58 # w @ q) = Some q"
    by (simp add: A_PREFIX_def label_prefix_def after_colon_def ci_eq_def isspace_def ustr_def dw)
  from plain_subs[OF q(2)] have p: "strip (collapse_ws q) = q" by simp
  show ?thesis
    by (simp add: clean_piece_def ustr_def st n l l1 p sub_prefix_def)
qed

lemma pair_sides_plain:
  assumes "q \<noteq> []" "clean_piece nd q1 = q" "clean_piece nd q = q"
    and "a \<noteq> []" "clean_piece nd a1 = a" "clean_piece nd a = a"
  shows "pair_sides nd q1 a1 = [card q a]"
  using assms by (simp add: pair_sides_def accept_def Let_def)

lemma pair_sides_spaced:
  "c \<in> set (pair_sides nd p r) \<Longrightarrow> single_spaced (question c) \<and> single_spaced (answer c)"
  using single_spaced_clean_piece[of nd p] single_spaced_clean_piece[of nd r]
    single_spaced_clean_piece[of nd "clean_piece nd p"] single_spaced_clean_piece[of nd "clean_piece nd r"]
  by (auto simp: pair_sides_def accept_def card_def Let_def split: if_splits)

lemma parse_numbered_pairs_concat:
  "parse_numbered_pairs nd text =
     Inr (concat (map (\<lambda>raw. case numbered_line nd raw of Inr cs \<Rightarrow> cs | Inl e \<Rightarrow> []) (splitlines text)))"
  unfolding parse_numbered_pairs_def
  using for_lines_concat[of "numbered_line nd" "[]" "splitlines text"] numbered_line_total
  by simp

text \<open>
  Claim C8, amended. For a non-empty stripped line, let \<open>l\<close> be the line without its
  leading numbering. When no separator occurs in \<open>l\<close> there is no card. Otherwise \<open>l\<close>
  is cut at the first occurrence of the first separator, in the order \<open>" - "\<close>,
  \<open>" \u2014 "\<close>, \<open>" : "\<close>, \<open>" \u2013 "\<close>, that occurs in it, which need not be the
  earliest separator of the line. Each side is cleaned, and cleaned once more when a
  label is left. A cleaned string has no whitespace at its ends, no whitespace
  character but the space and no two in a row; a side \<open>Q:\<close> or \<open>A:\<close>, any run of
  whitespace, then a text that cleaning leaves unchanged, is cleaned to that text. The
  line gives at most one card, and only with both sides non-empty; the extractor gives
  the cards of the lines, in order. The line
  \<open>1) Photosynthesis - converts light to energy\<close> gives the one card with question
  \<open>Photosynthesis\<close> and answer \<open>converts light to energy\<close>, and the line
  \<open>Q: a   b - A: c\<close> the one card with question \<open>a b\<close> and answer \<open>c\<close>.
\<close>

theorem numbered_line_split:
  assumes "strip raw \<noteq> []" and "l = sub_prefix (NUM_PREFIX nd) (strip raw)"
  shows "((\<forall>sep\<in>set separators. \<not> contains sep l) \<longrightarrow> numbered_line nd raw = Inr []) \<and>
    (\<forall>sep\<in>set separators.
       contains sep l \<and> (\<forall>s'\<in>set (takeWhile (\<lambda>x. x \<noteq> sep) separators). \<not> contains s' l) \<longrightarrow>
       (\<exists>p r. l = p @ sep @ r \<and> (\<forall>p' r'. l = p' @ sep @ r' \<longrightarrow> length p \<le> length p') \<and>
          numbered_line nd raw = Inr (pair_sides nd p r))) \<and>
    (\<forall>p r. pair_sides nd p r =
        accept (if has_q_label (clean_piece nd p) then clean_piece nd (clean_piece nd p) else clean_piece nd p)
               (if has_a_label (clean_piece nd r) then clean_piece nd (clean_piece nd r) else clean_piece nd r)) \<and>
    (\<forall>s. single_spaced (clean_piece nd s)) \<and>
    (\<forall>q a w1 w2. q \<noteq> [] \<and> clean_piece nd q = q \<and> a \<noteq> [] \<and> clean_piece nd a = a \<and>
        list_all isspace w1 \<and> list_all isspace w2 \<longrightarrow>
        clean_piece nd (ustr ''Q:'' @ w1 @ q) = q \<and> clean_piece nd (ustr ''A:'' @ w2 @ a) = a \<and>
        pair_sides nd (ustr ''Q:'' @ w1 @ q) (ustr ''A:'' @ w2 @ a) = [card q a] \<and>
        pair_sides nd q a = [card q a]) \<and>
    (\<exists>cs. numbered_line nd raw = Inr cs \<and> length cs \<le> 1 \<and>
        (\<forall>c\<in>set cs. question c \<noteq> [] \<and> answer c \<noteq> [] \<and> source_chunk c = 0 \<and>
           single_spaced (question c) \<and> single_spaced (answer c))) \<and>
    (\<forall>text. parse_numbered_pairs nd text =
        Inr (concat (map (\<lambda>raw. case numbered_line nd raw of Inr cs \<Rightarrow> cs | Inl e \<Rightarrow> [])
                         (splitlines text)))) \<and>
    parse_numbered_pairs nd (ustr ''1) Photosynthesis - converts light to energy'') =
      Inr [\<lparr>question = ustr ''Photosynthesis'', answer = ustr ''converts light to energy'',
            source_chunk = 0\<rparr>] \<and>
    parse_numbered_pairs nd (ustr ''Q: a   b - A: c'') =
      Inr [\<lparr>question = ustr ''a b'', answer = ustr ''c'', source_chunk = 0\<rparr>]"
proof -
  have nl: "numbered_line nd raw = sep_loop nd l separators"
    using assms by (simp add: numbered_line_def Let_def)
  have c1: "(\<forall>sep\<in>set separators. \<not> contains sep l) \<longrightarrow> numbered_line nd raw = Inr []"
    by (simp add: nl sep_loop_none)
  have c2: "\<forall>sep\<in>set separators.
       contains sep l \<and> (\<forall>s'\<in>set (takeWhile (\<lambda>x. x \<noteq> sep) separators). \<not> contains s' l) \<longrightarrow>
       (\<exists>p r. l = p @ sep @ r \<and> (\<forall>p' r'. l = p' @ sep @ r' \<longrightarrow> length p \<le> length p') \<and>
          numbered_line nd raw = Inr (pair_sides nd p r))"
  proof (intro ballI impI)
    fix sep
    assume sep: "sep \<in> set separators"
      and c: "contains sep l \<and> (\<forall>s'\<in>set (takeWhile (\<lambda>x. x \<noteq> sep) separators). \<not> contains s' l)"
    then obtain p r where pr: "find_sub sep l = Some (p, r)" by (auto simp: contains_def)
    from sep_loop_first[OF sep _ pr] c have "sep_loop nd l separators = Inr (pair_sides nd p r)"
      by blast
    with find_sub_Some[OF pr] find_sub_first[OF pr] nl
    show "\<exists>p r. l = p @ sep @ r \<and> (\<forall>p' r'. l = p' @ sep @ r' \<longrightarrow> length p \<le> length p') \<and>
          numbered_line nd raw = Inr (pair_sides nd p r)"
      by (intro exI[of _ p] exI[of _ r]) auto
  qed
  have c3: "\<forall>p r. pair_sides nd p r =
        accept (if has_q_label (clean_piece nd p) then clean_piece nd (clean_piece nd p) else clean_piece nd p)
               (if has_a_label (clean_piece nd r) then clean_piece nd (clean_piece nd r) else clean_piece nd r)"
    by (simp add: pair_sides_def Let_def)
  have c4: "\<forall>s. single_spaced (clean_piece nd s)"
    by (simp add: single_spaced_clean_piece)
  have c5: "\<forall>q a w1 w2. q \<noteq> [] \<and> clean_piece nd q = q \<and> a \<noteq> [] \<and> clean_piece nd a = a \<and>
        list_all isspace w1 \<and> list_all isspace w2 \<longrightarrow>
        clean_piece nd (ustr ''Q:'' @ w1 @ q) = q \<and> clean_piece nd (ustr ''A:'' @ w2 @ a) = a \<and>
        pair_sides nd (ustr ''Q:'' @ w1 @ q) (ustr ''A:'' @ w2 @ a) = [card q a] \<and>
        pair_sides nd q a = [card q a]"
  proof (intro allI impI)
    fix q a w1 w2
    assume h: "q \<noteq> [] \<and> clean_piece nd q = q \<and> a \<noteq> [] \<and> clean_piece nd a = a \<and>
        list_all isspace w1 \<and> list_all isspace w2"
    then have q: "q \<noteq> []" "clean_piece nd q = q" and a: "a \<noteq> []" "clean_piece nd a = a"
      and w: "list_all isspace w1" "list_all isspace w2" by simp_all
    have 1: "clean_piece nd (ustr ''Q:'' @ w1 @ q) = q" using q w(1) by (rule clean_piece_Q_label)
    have 2: "clean_piece nd (ustr ''A:'' @ w2 @ a) = a" using a w(2) by (rule clean_piece_A_label)
    have 3: "pair_sides nd (ustr ''Q:'' @ w1 @ q) (ustr ''A:'' @ w2 @ a) = [card q a]"
      using q(1) 1 q(2) a(1) 2 a(2) by (rule pair_sides_plain)
    have 4: "pair_sides nd q a = [card q a]"
      using q(1) q(2) q(2) a(1) a(2) a(2) by (rule pair_sides_plain)
    from 1 2 3 4
    show "clean_piece nd (ustr ''Q:'' @ w1 @ q) = q \<and> clean_piece nd (ustr ''A:'' @ w2 @ a) = a \<and>
        pair_sides nd (ustr ''Q:'' @ w1 @ q) (ustr ''A:'' @ w2 @ a) = [card q a] \<and>
        pair_sides nd q a = [card q a]" by blast
  qed
  have c6: "\<exists>cs. numbered_line nd raw = Inr cs \<and> length cs \<le> 1 \<and>
        (\<forall>c\<in>set cs. question c \<noteq> [] \<and> answer c \<noteq> [] \<and> source_chunk c = 0 \<and>
           single_spaced (question c) \<and> single_spaced (answer c))"
  proof -
    obtain cs where cs: "numbered_line nd raw = Inr cs" using numbered_line_total by blast
    have "cs = [] \<or> (\<exists>p r. cs = pair_sides nd p r)"
      using cs nl sep_loop_shape by metis
    then have "length cs \<le> 1 \<and>
        (\<forall>c\<in>set cs. question c \<noteq> [] \<and> answer c \<noteq> [] \<and> source_chunk c = 0 \<and>
           single_spaced (question c) \<and> single_spaced (answer c))"
      using pair_sides_cards pair_sides_spaced by auto
    with cs show ?thesis by blast
  qed
  have c7: "\<forall>text. parse_numbered_pairs nd text =
        Inr (concat (map (\<lambda>raw. case numbered_line nd raw of Inr cs \<Rightarrow> cs | Inl e \<Rightarrow> [])
                         (splitlines text)))"
    by (simp add: parse_numbered_pairs_concat)
  have c8: "parse_numbered_pairs nd (ustr ''1) Photosynthesis - converts light to energy'') =
      Inr [\<lparr>question = ustr ''Photosynthesis'', answer = ustr ''converts light to energy'',
            source_chunk = 0\<rparr>]"
    by (simp add: ev)
  have c9: "parse_numbered_pairs nd (ustr ''Q: a   b - A: c'') =
      Inr [\<lparr>question = ustr ''a b'', answer = ustr ''c'', source_chunk = 0\<rparr>]"
    by (simp add: ev)
  from c1 c2 c3 c4 c5 c6 c7 c8 c9 show ?thesis by (intro conjI)
qed

theorem numbered_line_split_witness:
  "strip (ustr ''2. Q: a   b - A: c'') \<noteq> [] \<and>
   ustr ''Q: a   b - A: c'' =
     sub_prefix (NUM_PREFIX ascii_digits_only) (strip (ustr ''2. Q: a   b - A: c'')) \<and>
   [32, 45, 32] \<in> set separators \<and> contains [32, 45, 32] (ustr ''Q: a   b - A: c'') \<and>
   clean_piece ascii_digits_only (ustr ''a b'') = ustr ''a b'' \<and>
   clean_piece ascii_digits_only (ustr ''c'') = ustr ''c'' \<and>
   pair_sides ascii_digits_only (ustr ''Q: a b'') (ustr ''A: c'') = [card (ustr ''a b'') (ustr ''c'')] \<and>
   single_spaced (clean_piece ascii_digits_only (ustr ''Q: a   b'')) \<and>
   (\<exists>cs. numbered_line ascii_digits_only (ustr ''2. Q: a   b - A: c'') = Inr cs \<and> length cs \<le> 1)"
proof -
  have h1: "strip (ustr ''2. Q: a   b - A: c'') \<noteq> []"
    by (simp add: ev)
  have h2: "ustr ''Q: a   b - A: c'' =
     sub_prefix (NUM_PREFIX ascii_digits_only) (strip (ustr ''2. Q: a   b - A: c''))"
    by (simp add: ev)
  note t = numbered_line_split[OF h1 h2]
  have s: "[32, 45, 32] \<in> set separators" by (simp add: separators_def)
  have c: "contains [32, 45, 32] (ustr ''Q: a   b - A: c'')" by (simp add: ev)
  have q: "ustr ''a b'' \<noteq> [] \<and> clean_piece ascii_digits_only (ustr ''a b'') = ustr ''a b''"
    by (simp add: ev)
  have a: "ustr ''c'' \<noteq> [] \<and> clean_piece ascii_digits_only (ustr ''c'') = ustr ''c''"
    by (simp add: ev)
  have w: "list_all isspace [32]" by (simp add: isspace_def)
  from t have "\<forall>q a w1 w2. q \<noteq> [] \<and> clean_piece ascii_digits_only q = q \<and> a \<noteq> [] \<and>
        clean_piece ascii_digits_only a = a \<and> list_all isspace w1 \<and> list_all isspace w2 \<longrightarrow>
        pair_sides ascii_digits_only (ustr ''Q:'' @ w1 @ q) (ustr ''A:'' @ w2 @ a) = [card q a]"
    by blast
  with q a w have "pair_sides ascii_digits_only (ustr ''Q:'' @ [32] @ ustr ''a b'') (ustr ''A:'' @ [32] @ ustr ''c'')
     = [card (ustr ''a b'') (ustr ''c'')]" by blast
  then have p: "pair_sides ascii_digits_only (ustr ''Q: a b'') (ustr ''A: c'') = [card (ustr ''a b'') (ustr ''c'')]"
    by (simp add: ustr_def)
  from t have sp: "single_spaced (clean_piece ascii_digits_only (ustr ''Q: a   b''))" by blast
  from t have e: "\<exists>cs. numbered_line ascii_digits_only (ustr ''2. Q: a   b - A: c'') = Inr cs \<and> length cs \<le> 1"
    by blast
  from h1 h2 s c q a p sp e show ?thesis by blast
qed

text \<open>
  Claim C8 as stated cuts the line at the first occurrence of one of the separators.
  In \<open>x : y - z\<close> the first separator to occur is \<open>" : "\<close>, which gives the question
  \<open>x\<close> and the answer \<open>y - z\<close>; the code tries \<open>" - "\<close> first and gives the question
  \<open>x : y\<close> and the answer \<open>z\<close>.
\<close>

theorem numbered_line_earliest_counterexample:
  "earliest_cut separators (ustr ''x : y - z'') = Some (ustr ''x'', ustr ''y - z'') \<and>
   pair_sides ascii_digits_only (ustr ''x'') (ustr ''y - z'') = [card (ustr ''x'') (ustr ''y - z'')] \<and>
   numbered_line ascii_digits_only (ustr ''x : y - z'') = Inr [card (ustr ''x : y'') (ustr ''z'')] \<and>
   parse_numbered_pairs ascii_digits_only (ustr ''x : y - z'') = Inr [card (ustr ''x : y'') (ustr ''z'')]"
  by (simp add: ev)

subsection \<open>The orchestrator\<close>

lemma turbo_user_total: "\<exists>usr. turbo_user full_text n_total topics = Inr usr"
  by (simp add: turbo_user_def compress_corpus_def Let_def)

lemma slice_to_nonneg: "0 \<le> n \<Longrightarrow> slice_to xs n = take (nat n) xs"
  by (simp add: slice_to_def norm_index_def min_def)

text \<open>
  What the orchestrator does when the parser returns: one call when the first answer has
  at least \<open>max(1, n_total // 2)\<close> cards, else one more call with the TSV-only
  instruction appended, and the cards cut to \<open>n_total\<close>.
\<close>

lemma generate_flashcards_turbo_returns:
  assumes "0 \<le> n_total" and usr: "turbo_user full_text n_total topics = Inr usr"
    and cards: "robust_parse_any nd loads py_str
                  (content_or_empty (call (turbo_request usr n_total temp))) = Inr cards"
  shows "int (length cards) \<ge> max 1 (n_total div 2) \<Longrightarrow>
           generate_flashcards_turbo nd loads py_str call full_text n_total temp topics =
             Inr ([turbo_request usr n_total temp], take (nat n_total) cards)"
    and "\<not> int (length cards) \<ge> max 1 (n_total div 2) \<Longrightarrow>
         robust_parse_any nd loads py_str
           (content_or_empty (call (turbo_request (usr @ TSV_ONLY) n_total temp))) = Inr cards2 \<Longrightarrow>
           generate_flashcards_turbo nd loads py_str call full_text n_total temp topics =
             Inr ([turbo_request usr n_total temp, turbo_request (usr @ TSV_ONLY) n_total temp],
                  take (nat n_total) cards2)"
  by (simp_all add: generate_flashcards_turbo_def usr cards Let_def slice_to_nonneg[OF assms(1)])

text \<open>
  Claim C3 fails on the code, by the defect of claim C4. When the model answers with
  the text of 4301 digits \<open>1\<close>, the parser raises on the first answer: the orchestrator
  has made one call, makes no retry and returns no sequence, whatever the notes,
  \<open>n_total\<close> and the topics are.
\<close>

theorem generate_flashcards_turbo_raises:
  "generate_flashcards_turbo nd limit_loads py_str long_int_oracle full_text n_total temp topics =
     Inl (Parse ValueError)"
proof -
  obtain usr where usr: "turbo_user full_text n_total topics = Inr usr"
    using turbo_user_total by blast
  have "robust_parse_any nd limit_loads py_str long_int_text = Inl ValueError"
    by (simp add: robust_parse_any_digits[OF long_int_text_digits] parse_json_list_def limit_loads_def)
  then show ?thesis
    by (simp add: generate_flashcards_turbo_def usr Let_def long_int_oracle_def content_or_empty_def)
qed

subsection \<open>The tab-separated round trip\<close>

lemma clean_piece_shape:
  assumes "clean_piece nd s = s" "s \<noteq> []"
  shows "\<not> isspace (hd s)" "\<not> isspace (last s)" "\<And>c. c \<in> set s \<Longrightarrow> isspace c \<Longrightarrow> c = 32"
proof -
  obtain x where x: "s = strip (collapse_ws x)"
    using assms(1) by (metis clean_piece_def)
  with assms(2) strip_ends show "\<not> isspace (hd s)" "\<not> isspace (last s)" by auto
  fix c assume "c \<in> set s" "isspace c"
  with x set_strip set_collapse_ws show "c = 32" by blast
qed

lemma tsv_line_plain:
  assumes q: "q \<noteq> []" "clean_piece nd q = q" and a: "a \<noteq> []" "clean_piece nd a = a"
  shows "tsv_line nd (q @ [9] @ a) = Inr [card q a]"
    and "q @ [9] @ a \<noteq> []" and "\<forall>c\<in>set (q @ [9] @ a). \<not> is_linebreak c"
proof -
  note qs = clean_piece_shape[OF q(2,1)] and as = clean_piece_shape[OF a(2,1)]
  have sp9: "isspace 9" by (simp add: isspace_def)
  have "9 \<notin> set q" using qs(3)[of 9] sp9 by auto
  then have f: "find_sub [9] (q @ [9] @ a) = Some (q, a)"
    using find_sub_char[of 9 q a] by simp
  have "strip (q @ [9] @ a) = q @ [9] @ a"
    using q(1) a(1) qs(1) as(2) by (intro strip_id) (simp_all add: hd_append)
  then show "tsv_line nd (q @ [9] @ a) = Inr [card q a]"
    using f q a by (simp add: tsv_line_def Let_def contains_def split1_def unpack2_def accept_def)
  show "q @ [9] @ a \<noteq> []" by simp
  show "\<forall>c\<in>set (q @ [9] @ a). \<not> is_linebreak c"
    using qs(3) as(3) isspace_linebreak by (auto simp: is_linebreak_def)
qed

lemma for_lines_tsv:
  "\<forall>(q, a)\<in>set qas. q \<noteq> [] \<and> a \<noteq> [] \<and> clean_piece nd q = q \<and> clean_piece nd a = a \<Longrightarrow>
   for_lines (tsv_line nd) out (map (\<lambda>(q, a). q @ [9] @ a) qas) = Inr (out @ cards_of qas)"
proof (induction qas arbitrary: out)
  case Nil
  then show ?case by (simp add: cards_of_def)
next
  case (Cons qa qas)
  obtain q a where qa: "qa = (q, a)" by (cases qa)
  with Cons.prems have "tsv_line nd (q @ [9] @ a) = Inr [card q a]"
    by (intro tsv_line_plain) auto
  moreover from Cons have "for_lines (tsv_line nd) (out @ [card q a]) (map (\<lambda>(q, a). q @ [9] @ a) qas) =
      Inr ((out @ [card q a]) @ cards_of qas)"
    by simp
  ultimately show ?case using qa by (simp add: cards_of_def)
qed

lemma parse_tsv_lines_plain:
  assumes "\<forall>(q, a)\<in>set qas. q \<noteq> [] \<and> a \<noteq> [] \<and> clean_piece nd q = q \<and> clean_piece nd a = a"
  shows "parse_tsv_lines nd (tsv_text qas) = Inr (cards_of qas)"
proof -
  have "\<forall>l\<in>set (map (\<lambda>(q, a). q @ [9] @ a) qas). l \<noteq> [] \<and> (\<forall>c\<in>set l. \<not> is_linebreak c)"
  proof
    fix l assume "l \<in> set (map (\<lambda>(q, a). q @ [9] @ a) qas)"
    then obtain q a where "(q, a) \<in> set qas" "l = q @ [9] @ a" by auto
    with assms tsv_line_plain(2,3)[of q nd a] show "l \<noteq> [] \<and> (\<forall>c\<in>set l. \<not> is_linebreak c)"
      by blast
  qed
  then have "splitlines (tsv_text qas) = map (\<lambda>(q, a). q @ [9] @ a) qas"
    unfolding tsv_text_def by (rule splitlines_join)
  with for_lines_tsv[OF assms, of "[]"] show ?thesis by (simp add: parse_tsv_lines_def)
qed

text \<open>
  Claim C7, amended. For a text of five lines \<open>question TAB answer\<close> joined by newlines,
  where every question and every answer is non-empty and is left unchanged by the
  cleaning step (so it is whitespace-normalised and starts with no numbering, no bullet
  and no \<open>Q\<close> or \<open>A\<close> label), \<open>_robust_parse_any\<close> returns exactly the five cards of
  the lines, in their order.
\<close>

theorem tsv_round_trip:
  assumes "length qas = 5"
    and "fixed_pairs nd qas"
  shows "robust_parse_any nd loads py_str (tsv_text qas) = Inr (cards_of qas) \<and>
         length (cards_of qas) = 5"
proof -
  from assms(1) have "cards_of qas \<noteq> []" by (auto simp: cards_of_def)
  moreover from assms(2)
  have "\<forall>(q, a)\<in>set qas. q \<noteq> [] \<and> a \<noteq> [] \<and> clean_piece nd q = q \<and> clean_piece nd a = a"
    by (simp add: fixed_pairs_def list_all_iff)
  note parse_tsv_lines_plain[OF this]
  ultimately show ?thesis using assms(1)
    by (simp add: robust_parse_any_def cards_of_def)
qed


theorem tsv_round_trip_witness:
  "length spec_cards = 5 \<and> fixed_pairs ascii_digits_only spec_cards \<and>
   robust_parse_any ascii_digits_only no_json plain_str (tsv_text spec_cards) = Inr (cards_of spec_cards)"
proof -
  have l: "length spec_cards = 5" by (simp add: spec_cards_def)
  have f: "fixed_pairs ascii_digits_only spec_cards"
    by (simp add: fixed_pairs_def spec_cards_def ev)
  from tsv_round_trip[OF l f] l f show ?thesis by blast
qed

text \<open>
  Claim C7 as stated asks only for non-empty, whitespace-normalised sides. The answer
  \<open>3.14\<close> is both, and the cleaning step takes its \<open>3.\<close> for a numbering: the third
  card comes back with the answer \<open>14\<close>.
\<close>

theorem tsv_round_trip_counterexample:
  "length pi_cards = 5 \<and> plain_pairs pi_cards \<and>
   robust_parse_any ascii_digits_only no_json plain_str (tsv_text pi_cards) = Inr (cards_of pi_parsed) \<and>
   cards_of pi_parsed \<noteq> cards_of pi_cards"
proof -
  have "parse_tsv_lines ascii_digits_only (tsv_text pi_cards) = Inr (cards_of pi_parsed)"
    by (simp add: tsv_text_def pi_cards_def pi_parsed_def cards_of_def ev)
  moreover have "cards_of pi_parsed \<noteq> []" by (simp add: pi_parsed_def cards_of_def)
  ultimately have "robust_parse_any ascii_digits_only no_json plain_str (tsv_text pi_cards) =
      Inr (cards_of pi_parsed)"
    by (simp add: robust_parse_any_def)
  moreover have "plain_pairs pi_cards"
    by (simp add: plain_pairs_def ws_normalized_def pi_cards_def ev)
  moreover have "cards_of pi_parsed \<noteq> cards_of pi_cards"
    by (simp add: pi_parsed_def pi_cards_def cards_of_def card_def ustr_def)
  ultimately show ?thesis by (simp add: pi_cards_def)
qed

section \<open>Properties of the chunker\<close>

subsection \<open>The unit splitter\<close>

lemma strip_nonempty_iff: "strip p \<noteq> [] \<longleftrightarrow> (\<exists>c\<in>set p. \<not> isspace c)"
proof -
  have "strip p \<noteq> [] \<longleftrightarrow> dropWhile isspace (rev (dropWhile isspace p)) \<noteq> []"
    by (simp add: strip_def)
  also have "\<dots> \<longleftrightarrow> (\<exists>c\<in>set (dropWhile isspace p). \<not> isspace c)"
    by (simp add: dropWhile_eq_Nil_conv)
  also have "\<dots> \<longleftrightarrow> dropWhile isspace p \<noteq> []"
    by (metis hd_dropWhile list.set_sel(1) empty_iff empty_set)
  also have "\<dots> \<longleftrightarrow> (\<exists>c\<in>set p. \<not> isspace c)"
    by (simp add: dropWhile_eq_Nil_conv)
  finally show ?thesis .
qed

lemma stripped_nonempty_iff:
  "stripped_nonempty ps \<noteq> [] \<longleftrightarrow> (\<exists>p\<in>set ps. \<exists>c\<in>set p. \<not> isspace c)"
  by (auto simp: stripped_nonempty_def filter_empty_conv strip_nonempty_iff)

lemma stripped_nonempty_units: "u \<in> set (stripped_nonempty ps) \<Longrightarrow> u \<noteq> []"
  by (auto simp: stripped_nonempty_def)

lemma sent_split_covers:
  "\<not> isspace c \<Longrightarrow> c \<in> set piece \<union> set t \<Longrightarrow> \<exists>p\<in>set (sent_split piece t). c \<in> set p"
proof (induction piece t rule: sent_split.induct)
  case (1 piece)
  then show ?case by simp
next
  case (2 piece d ds)
  show ?case
  proof (cases "isspace d \<and> piece \<noteq> [] \<and> (last piece = 46 \<or> last piece = 33 \<or> last piece = 63)")
    case True
    show ?thesis
    proof (cases "c \<in> set piece")
      case c: True
      with True show ?thesis by auto
    next
      case False
      with "2.prems" True have "c \<in> set ds" by auto
      with "2.prems"(1) have "c \<in> set (dropWhile isspace ds)"
        by (metis set_takeWhileD takeWhile_dropWhile_id set_append UnE)
      with "2.IH"(1)[OF True "2.prems"(1)] True show ?thesis by auto
    qed
  next
    case False
    from "2.prems" have "c \<in> set (piece @ [d]) \<union> set ds" by auto
    with "2.IH"(2)[OF False "2.prems"(1)] False show ?thesis by auto
  qed
qed

text \<open>
  Claim C5, amended. Every unit returned by \<open>_split_candidates\<close> is non-empty. The
  sequence of units is non-empty for every text that has a character other than
  whitespace and no heading line; when the text has heading lines, it is non-empty
  exactly when some part between them has a character other than whitespace.
\<close>

theorem split_candidates_nonempty:
  "(\<forall>u\<in>set (split_candidates text). u \<noteq> []) \<and>
   (length (heading_split [] text) \<le> 1 \<and> (\<exists>c\<in>set text. \<not> isspace c) \<longrightarrow> split_candidates text \<noteq> []) \<and>
   (length (heading_split [] text) > 1 \<longrightarrow>
      (split_candidates text \<noteq> [] \<longleftrightarrow> (\<exists>p\<in>set (heading_split [] text). \<exists>c\<in>set p. \<not> isspace c)))"
proof (intro conjI impI)
  show "\<forall>u\<in>set (split_candidates text). u \<noteq> []"
    by (auto simp: split_candidates_def Let_def dest: stripped_nonempty_units)
next
  assume a: "length (heading_split [] text) \<le> 1 \<and> (\<exists>c\<in>set text. \<not> isspace c)"
  then obtain c where c: "c \<in> set text" "\<not> isspace c" by blast
  with sent_split_covers[of c "[]" "text"] have "stripped_nonempty (sent_split [] text) \<noteq> []"
    by (auto simp: stripped_nonempty_iff)
  with a show "split_candidates text \<noteq> []"
    by (auto simp: split_candidates_def Let_def)
next
  assume "length (heading_split [] text) > 1"
  then show "split_candidates text \<noteq> [] \<longleftrightarrow> (\<exists>p\<in>set (heading_split [] text). \<exists>c\<in>set p. \<not> isspace c)"
    by (simp add: split_candidates_def Let_def stripped_nonempty_iff)
qed

theorem split_candidates_nonempty_witness:
  "length (heading_split [] (ustr ''One. Two!'')) \<le> 1 \<and> (\<exists>c\<in>set (ustr ''One. Two!''). \<not> isspace c) \<and>
   split_candidates (ustr ''One. Two!'') \<noteq> [] \<and>
   split_candidates (ustr ''One. Two!'') = [ustr ''One.'', ustr ''Two!'']"
proof -
  have h: "length (heading_split [] (ustr ''One. Two!'')) \<le> 1 \<and> (\<exists>c\<in>set (ustr ''One. Two!''). \<not> isspace c)"
    by (simp add: ev ev2)
  have r: "split_candidates (ustr ''One. Two!'') = [ustr ''One.'', ustr ''Two!'']"
    by (simp add: ev ev2)
  from split_candidates_nonempty[of "ustr ''One. Two!''"] h r show ?thesis by blast
qed

text \<open>
  Claim C5 as stated covers every non-empty string. The string of one space is not
  empty and has no unit.
\<close>

theorem split_candidates_blank_counterexample:
  "ustr '' '' \<noteq> [] \<and> split_candidates (ustr '' '') = []"
  by (simp add: ev ev2)

end
